theory Spec2Isabelle
  imports Main "HOL-Library.Multiset"
begin

section \<open>Locators, versions and errors\<close>

record Locator =
  Repository :: string
  Name :: string
  Version :: string

text \<open>
  Modelled from the spec: the parsed semantic version of package \<^verbatim>\<open>loc\<close> (not under
  \<^verbatim>\<open>src/\<close>): major, minor, patch, the pre-release identifiers and the metadata.
\<close>

record SemVersion =
  Major :: nat
  Minor :: nat
  Patch :: nat
  PreRelease :: "string list"
  Metadata :: string

text \<open>What the code reads of an \<^verbatim>\<open>os.FileInfo\<close>: whether the path is a directory.\<close>

record FileInfo =
  IsDir :: bool

text \<open>
  The code builds its errors with the \<^verbatim>\<open>trace\<close> package: \<^verbatim>\<open>trace.BadParameter\<close>,
  \<^verbatim>\<open>trace.NotFound\<close> and \<^verbatim>\<open>trace.Errorf\<close> take a format string and its arguments;
  \<^verbatim>\<open>trace.Wrap\<close> keeps the kind of the error it wraps (\<^verbatim>\<open>trace.IsNotFound\<close> looks
  through it), so it is modelled as the identity. An error keeps its format string and
  its arguments unrendered. \<open>MalformedVersion\<close> is the error of a version string that does
  not parse, \<open>AlreadyExists\<close> the error of the store for a package that exists,
  \<open>ErrNotExist\<close> the error of the operating system for a path that does not exist (the one
  \<^verbatim>\<open>os.IsNotExist\<close> recognises); \<open>Foreign\<close> is any other error of a collaborator.
\<close>

datatype arg = S string | L Locator | V SemVersion | F FileInfo

datatype error =
    BadParameter string "arg list"
  | NotFound string "arg list"
  | Errorf string "arg list"
  | AlreadyExists string "arg list"
  | MalformedVersion string
  | ErrNotExist string
  | Foreign string

fun IsNotFound :: "error \<Rightarrow> bool" where
  "IsNotFound (NotFound _ _) = True"
| "IsNotFound _ = False"

fun IsNotExist :: "error \<Rightarrow> bool" where
  "IsNotExist (ErrNotExist _) = True"
| "IsNotExist _ = False"

fun IsBadParameter :: "error \<Rightarrow> bool" where
  "IsBadParameter (BadParameter _ _) = True"
| "IsBadParameter _ = False"

section \<open>Semantic versions\<close>

text \<open>
  Modelled from the spec: \<^verbatim>\<open>Locator.SemVer\<close>, \<^verbatim>\<open>Version.Compare\<close> and
  \<^verbatim>\<open>Version.LessThan\<close> (package \<^verbatim>\<open>loc\<close> and the semantic-version library are not under
  \<^verbatim>\<open>src/\<close>). The spec: parsing "fails with a malformed-version error if the version
  string is not a valid semantic version", and comparison is "semantic version precedence
  (major, minor, patch, then pre-release/metadata per standard semantic-versioning
  rules)". The grammar is \<^verbatim>\<open>MAJOR.MINOR.PATCH[-PRERELEASE][+METADATA]\<close>.
\<close>

definition is_digit :: "char \<Rightarrow> bool" where
  "is_digit c = (c \<in> set ''0123456789'')"

definition is_ident_char :: "char \<Rightarrow> bool" where
  "is_ident_char c =
     (c \<in> set ''0123456789abcdefghijklmnopqrstuvwxyzABCDEFGHIJKLMNOPQRSTUVWXYZ-'')"

definition all_digits :: "string \<Rightarrow> bool" where
  "all_digits s = (s \<noteq> [] \<and> list_all is_digit s)"

definition numeric_ident :: "string \<Rightarrow> bool" where
  "numeric_ident s = (all_digits s \<and> (length s = 1 \<or> hd s \<noteq> CHR ''0''))"

definition alnum_ident :: "string \<Rightarrow> bool" where
  "alnum_ident s = (s \<noteq> [] \<and> list_all is_ident_char s)"

definition prerelease_ident :: "string \<Rightarrow> bool" where
  "prerelease_ident s = (alnum_ident s \<and> (if all_digits s then numeric_ident s else True))"

definition digit_val :: "char \<Rightarrow> nat" where
  "digit_val c = of_char c - 48"

definition nat_of_digits :: "string \<Rightarrow> nat" where
  "nat_of_digits s = foldl (\<lambda>n c. 10 * n + digit_val c) 0 s"

fun split_on :: "char \<Rightarrow> string \<Rightarrow> string list" where
  "split_on c [] = [[]]"
| "split_on c (x # xs) =
     (if x = c then [] # split_on c xs
      else (case split_on c xs of
              [] \<Rightarrow> [[x]]
            | p # ps \<Rightarrow> (x # p) # ps))"

definition splitOff :: "char \<Rightarrow> string \<Rightarrow> string \<times> string option" where
  "splitOff c s =
     (case dropWhile (\<lambda>x. x \<noteq> c) s of
        [] \<Rightarrow> (s, None)
      | _ # rest \<Rightarrow> (takeWhile (\<lambda>x. x \<noteq> c) s, Some rest))"

definition parse_version :: "string \<Rightarrow> SemVersion option" where
  "parse_version s =
     (let (s1, meta) = splitOff CHR ''+'' s;
          (core, pre) = splitOff CHR ''-'' s1;
          pre_ids = (case pre of None \<Rightarrow> [] | Some p \<Rightarrow> split_on CHR ''.'' p);
          meta_ids = (case meta of None \<Rightarrow> [] | Some m \<Rightarrow> split_on CHR ''.'' m)
      in case split_on CHR ''.'' core of
           [a, b, c] \<Rightarrow>
             if numeric_ident a \<and> numeric_ident b \<and> numeric_ident c
                \<and> list_all prerelease_ident pre_ids \<and> list_all alnum_ident meta_ids
             then Some \<lparr>Major = nat_of_digits a, Minor = nat_of_digits b,
                        Patch = nat_of_digits c, PreRelease = pre_ids,
                        Metadata = (case meta of None \<Rightarrow> [] | Some m \<Rightarrow> m)\<rparr>
             else None
         | _ \<Rightarrow> None)"

definition SemVer :: "Locator \<Rightarrow> error + SemVersion" where
  "SemVer l = (case parse_version (Version l) of
                 None \<Rightarrow> Inl (MalformedVersion (Version l))
               | Some v \<Rightarrow> Inr v)"

definition cmp_nat :: "nat \<Rightarrow> nat \<Rightarrow> int" where
  "cmp_nat a b = (if a > b then 1 else if a < b then -1 else 0)"

definition cmp_char :: "char \<Rightarrow> char \<Rightarrow> int" where
  "cmp_char a b = cmp_nat (of_char a) (of_char b)"

fun lex_cmp :: "('a \<Rightarrow> 'a \<Rightarrow> int) \<Rightarrow> 'a list \<Rightarrow> 'a list \<Rightarrow> int" where
  "lex_cmp c [] [] = 0"
| "lex_cmp c [] (y # ys) = -1"
| "lex_cmp c (x # xs) [] = 1"
| "lex_cmp c (x # xs) (y # ys) = (if c x y \<noteq> 0 then c x y else lex_cmp c xs ys)"

definition cmp_ident :: "string \<Rightarrow> string \<Rightarrow> int" where
  "cmp_ident a b =
     (if all_digits a \<and> \<not> all_digits b then -1
      else if \<not> all_digits a \<and> all_digits b then 1
      else if all_digits a \<and> all_digits b then cmp_nat (nat_of_digits a) (nat_of_digits b)
      else lex_cmp cmp_char a b)"

definition preReleaseCompare :: "SemVersion \<Rightarrow> SemVersion \<Rightarrow> int" where
  "preReleaseCompare v w =
     (if PreRelease v = [] \<and> PreRelease w \<noteq> [] then 1
      else if PreRelease w = [] \<and> PreRelease v \<noteq> [] then -1
      else lex_cmp cmp_ident (PreRelease v) (PreRelease w))"

definition Slice :: "SemVersion \<Rightarrow> nat list" where
  "Slice v = [Major v, Minor v, Patch v]"

definition Compare :: "SemVersion \<Rightarrow> SemVersion \<Rightarrow> int" where
  "Compare v w =
     (if lex_cmp cmp_nat (Slice v) (Slice w) \<noteq> 0 then lex_cmp cmp_nat (Slice v) (Slice w)
      else preReleaseCompare v w)"

definition LessThan :: "SemVersion \<Rightarrow> SemVersion \<Rightarrow> bool" where
  "LessThan v w = (Compare v w < 0)"

section \<open>Validating an update\<close>

definition CheckUpdatePackage :: "Locator \<Rightarrow> Locator \<Rightarrow> error option" where
  "CheckUpdatePackage from to =
     (if Repository from \<noteq> Repository to \<or> Name from \<noteq> Name to then
        Some (BadParameter
          ''you are attempting to upgrade to %v %v, but different application is installed: %v %v''
          [S (Name to), S (Version to), S (Name from), S (Version from)])
      else case SemVer from of
        Inl err \<Rightarrow> Some err
      | Inr fromVer \<Rightarrow>
          (case SemVer to of
             Inl err \<Rightarrow> Some err
           | Inr toVer \<Rightarrow>
               if \<not> LessThan fromVer toVer then
                 Some (BadParameter
                   ''update version (%v) must be greater than the currently installed version (%v)''
                   [V toVer, V fromVer])
               else None))"

section \<open>Packages and the package service\<close>

text \<open>
  Modelled from the spec: the envelope type, its label lookup \<^verbatim>\<open>HasLabel\<close>, the label
  names and \<^verbatim>\<open>Locator.ZeroVersion\<close>, \<^verbatim>\<open>Locator.String\<close> are declared outside \<^verbatim>\<open>src/\<close>.
  The spec: an envelope is "a located package plus its label set", labels are a
  mapping from string to string; \<^verbatim>\<open>FindConfigPackage\<close> "finds the envelope carrying a
  config label whose value equals the filter's zero-version string"; the textual form of
  a locator is \<^verbatim>\<open>repository/name:version\<close>; \<^verbatim>\<open>ZeroVersion\<close> "returns a Locator with the
  line's identity but a canonical placeholder version" (the spec does not give the
  placeholder; it is taken to be \<^verbatim>\<open>0.0.0\<close>, and no theorem below depends on its value).
\<close>

record PackageEnvelope =
  Locator :: Locator
  RuntimeLabels :: "string \<rightharpoonup> string"

definition HasLabel :: "PackageEnvelope \<Rightarrow> string \<Rightarrow> string \<Rightarrow> bool" where
  "HasLabel e label val = (RuntimeLabels e label = Some val)"

definition InstalledLabel :: string where
  "InstalledLabel = ''installed''"

definition ConfigLabel :: string where
  "ConfigLabel = ''config''"

definition PurposeLabel :: string where
  "PurposeLabel = ''purpose''"

definition ZeroVersion :: "Locator \<Rightarrow> Locator" where
  "ZeroVersion l = l\<lparr>Version := ''0.0.0''\<rparr>"

definition String :: "Locator \<Rightarrow> string" where
  "String l = Repository l @ ''/'' @ Name l @ '':'' @ Version l"

text \<open>
  The read side of the \<^verbatim>\<open>PackageService\<close> interface, as the resolver consumes it: each
  call may fail. \<^verbatim>\<open>ReadPackage\<close> returns the bytes of a package.
\<close>

record PackageService =
  GetRepositories :: "error + string list"
  GetPackages :: "string \<Rightarrow> error + PackageEnvelope list"
  ReadPackage :: "Locator \<Rightarrow> error + string"

section \<open>Iteration\<close>

text \<open>
  The callbacks of the source are closures that assign to variables of the enclosing
  function. A callback is modelled as a function from the captured state and the envelope
  to its error and the new captured state; an error stops the iteration, and what the
  callback assigned before stays assigned.
\<close>

fun foreach_packs ::
  "('s \<Rightarrow> PackageEnvelope \<Rightarrow> error option \<times> 's) \<Rightarrow> PackageEnvelope list \<Rightarrow> 's
     \<Rightarrow> error option \<times> 's" where
  "foreach_packs fn [] s = (None, s)"
| "foreach_packs fn (pkg # packs) s =
     (case fn s pkg of
        (Some err, s') \<Rightarrow> (Some err, s')
      | (None, s') \<Rightarrow> foreach_packs fn packs s')"

definition ForeachPackageInRepo ::
  "PackageService \<Rightarrow> string \<Rightarrow> ('s \<Rightarrow> PackageEnvelope \<Rightarrow> error option \<times> 's) \<Rightarrow> 's
     \<Rightarrow> error option \<times> 's" where
  "ForeachPackageInRepo packages repo fn s =
     (case GetPackages packages repo of
        Inl err \<Rightarrow> (Some err, s)
      | Inr packs \<Rightarrow> foreach_packs fn packs s)"

fun foreach_repos ::
  "PackageService \<Rightarrow> ('s \<Rightarrow> PackageEnvelope \<Rightarrow> error option \<times> 's) \<Rightarrow> string list \<Rightarrow> 's
     \<Rightarrow> error option \<times> 's" where
  "foreach_repos packages fn [] s = (None, s)"
| "foreach_repos packages fn (repo # repos) s =
     (case ForeachPackageInRepo packages repo fn s of
        (Some err, s') \<Rightarrow> (Some err, s')
      | (None, s') \<Rightarrow> foreach_repos packages fn repos s')"

definition ForeachPackage ::
  "PackageService \<Rightarrow> ('s \<Rightarrow> PackageEnvelope \<Rightarrow> error option \<times> 's) \<Rightarrow> 's
     \<Rightarrow> error option \<times> 's" where
  "ForeachPackage packages fn s =
     (case GetRepositories packages of
        Inl err \<Rightarrow> (Some err, s)
      | Inr repos \<Rightarrow> foreach_repos packages fn repos s)"

section \<open>The resolver\<close>

text \<open>
  A Go result \<^verbatim>\<open>(*T, error)\<close> is a pair of options: \<open>None\<close> is \<^verbatim>\<open>nil\<close>. The variables
  \<open>fltr\<close> and \<open>maxl\<close> are the source's \<^verbatim>\<open>filter\<close> and \<^verbatim>\<open>max\<close>, names that are constants
  of HOL. The body of each closure of the source is a definition of its own, named after
  the function that declares it.
\<close>

definition FindPackage_fn ::
  "(PackageEnvelope \<Rightarrow> bool) \<Rightarrow> PackageEnvelope option \<Rightarrow> PackageEnvelope
     \<Rightarrow> error option \<times> PackageEnvelope option" where
  "FindPackage_fn fn env e = (None, if fn e then Some e else env)"

definition FindPackage ::
  "PackageService \<Rightarrow> (PackageEnvelope \<Rightarrow> bool) \<Rightarrow> PackageEnvelope option \<times> error option" where
  "FindPackage packages fn =
     (case ForeachPackage packages (FindPackage_fn fn) None of
        (err, env) \<Rightarrow>
          if env = None then (None, Some (NotFound ''package not found'' []))
          else (env, err))"

text \<open>
  \<^verbatim>\<open>FindPackage\<close> never returns \<^verbatim>\<open>(nil, nil)\<close>; its callers dereference the package
  when the error is \<^verbatim>\<open>nil\<close>, which would panic on \<^verbatim>\<open>nil\<close>. The model keeps that branch as
  a value of its own.
\<close>

definition nil_dereference :: error where
  "nil_dereference = Foreign ''invalid memory address or nil pointer dereference''"

definition FindInstalledPackage ::
  "PackageService \<Rightarrow> Locator \<Rightarrow> Locator option \<times> error option" where
  "FindInstalledPackage packages fltr =
     (case FindPackage packages
             (\<lambda>e. if Repository (Locator e) \<noteq> Repository fltr then False
                  else if Name (Locator e) \<noteq> Name fltr then False
                  else HasLabel e InstalledLabel InstalledLabel) of
        (pkg, Some err) \<Rightarrow>
          if IsNotFound err
          then (None, Some (NotFound ''no installed package for %v not found'' [L fltr]))
          else (None, Some err)
      | (Some pkg, None) \<Rightarrow> (Some (Locator pkg), None)
      | (None, None) \<Rightarrow> (None, Some nil_dereference))"

definition HasLabel_config :: "Locator \<Rightarrow> PackageEnvelope \<Rightarrow> bool" where
  "HasLabel_config fltr e = HasLabel e ConfigLabel (String (ZeroVersion fltr))"

definition FindConfigPackage ::
  "PackageService \<Rightarrow> Locator \<Rightarrow> Locator option \<times> error option" where
  "FindConfigPackage packages fltr =
     (case FindPackage packages (HasLabel_config fltr) of
        (configPkg, Some err) \<Rightarrow>
          if IsNotFound err
          then (None, Some (NotFound ''no configuration package for %v found'' [L fltr]))
          else (None, Some err)
      | (Some configPkg, None) \<Rightarrow> (Some (Locator configPkg), None)
      | (None, None) \<Rightarrow> (None, Some nil_dereference))"

definition FindLatest_predicate ::
  "(PackageEnvelope \<Rightarrow> bool) \<Rightarrow> Locator option \<Rightarrow> PackageEnvelope
     \<Rightarrow> error option \<times> Locator option" where
  "FindLatest_predicate fltr maxl e =
     (if \<not> fltr e then (None, maxl)
      else case maxl of
        None \<Rightarrow> (None, Some (Locator e))
      | Some m \<Rightarrow>
          (case SemVer m of
             Inl err \<Rightarrow> (None, maxl)
           | Inr vera \<Rightarrow>
               (case SemVer (Locator e) of
                  Inl err \<Rightarrow> (None, maxl)
                | Inr verb \<Rightarrow>
                    if Compare verb vera > 0 then (None, Some (Locator e))
                    else (None, maxl))))"

definition FindLatestPackagePredicate ::
  "PackageService \<Rightarrow> string \<Rightarrow> (PackageEnvelope \<Rightarrow> bool)
     \<Rightarrow> Locator option \<times> error option" where
  "FindLatestPackagePredicate packages repository fltr =
     (case (if repository \<noteq> []
            then ForeachPackageInRepo packages repository (FindLatest_predicate fltr) None
            else ForeachPackage packages (FindLatest_predicate fltr) None) of
        (Some err, maxl) \<Rightarrow> (None, Some err)
      | (None, None) \<Rightarrow> (None, Some (NotFound ''latest package not found'' []))
      | (None, Some m) \<Rightarrow> (Some m, None))"

definition FindLatestPackage ::
  "PackageService \<Rightarrow> Locator \<Rightarrow> Locator option \<times> error option" where
  "FindLatestPackage packages fltr =
     (case FindLatestPackagePredicate packages (Repository fltr)
             (\<lambda>e. Repository (Locator e) = Repository fltr
                   \<and> Name (Locator e) = Name fltr) of
        (loc, Some err) \<Rightarrow>
          if IsNotFound err
          then (None, Some (NotFound ''latest package with filter %v not found'' [L fltr]))
          else (loc, Some err)
      | (loc, None) \<Rightarrow> (loc, None))"



record PackageUpdate =
  From :: Locator
  To :: Locator

definition FindPackageUpdate ::
  "PackageService \<Rightarrow> Locator \<Rightarrow> PackageUpdate option \<times> error option" where
  "FindPackageUpdate packages pkg =
     (case FindLatestPackage packages pkg of
        (latest, Some err) \<Rightarrow> (None, Some err)
      | (None, None) \<Rightarrow> (None, Some nil_dereference)
      | (Some latestPackage, None) \<Rightarrow>
          (case SemVer pkg of
             Inl err \<Rightarrow> (None, Some err)
           | Inr currentVersion \<Rightarrow>
               (case SemVer latestPackage of
                  Inl err \<Rightarrow> (None, Some err)
                | Inr latestVersion \<Rightarrow>
                    if Compare latestVersion currentVersion > 0
                    then (Some \<lparr>From = pkg, To = latestPackage\<rparr>, None)
                    else (None, Some (NotFound ''%v is already at the latest version'' [L pkg])))))"

section \<open>What a scan visits\<close>

text \<open>
  The store enumeration order: the envelopes that \<^verbatim>\<open>ForeachPackage\<close> hands to its callback,
  in order, and the error of the service call that ended the enumeration, if one failed.
  \<open>scanned\<close> is the same for the scan of \<^verbatim>\<open>FindLatestPackagePredicate\<close>, which is limited
  to one repository when a repository is given.
\<close>

fun visited :: "PackageService \<Rightarrow> string list \<Rightarrow> PackageEnvelope list \<times> error option" where
  "visited packages [] = ([], None)"
| "visited packages (repo # repos) =
     (case GetPackages packages repo of
        Inl err \<Rightarrow> ([], Some err)
      | Inr packs \<Rightarrow>
          (case visited packages repos of (es, err) \<Rightarrow> (packs @ es, err)))"

definition enumeration :: "PackageService \<Rightarrow> PackageEnvelope list \<times> error option" where
  "enumeration packages =
     (case GetRepositories packages of
        Inl err \<Rightarrow> ([], Some err)
      | Inr repos \<Rightarrow> visited packages repos)"

definition scanned :: "PackageService \<Rightarrow> string \<Rightarrow> PackageEnvelope list \<times> error option" where
  "scanned packages repository =
     (if repository \<noteq> [] then
        (case GetPackages packages repository of
           Inl err \<Rightarrow> ([], Some err)
         | Inr packs \<Rightarrow> (packs, None))
      else enumeration packages)"

section \<open>An in-memory package store\<close>

text \<open>
  Modelled from the spec: an implementation of the \<^verbatim>\<open>PackageService\<close> interface (none is
  under \<^verbatim>\<open>src/\<close>). The spec: \<^verbatim>\<open>GetRepositories\<close> lists the repositories, \<^verbatim>\<open>GetPackages\<close>
  the envelopes of one repository, \<^verbatim>\<open>ReadPackage\<close> gives the bytes of a package and
  \<^verbatim>\<open>CreatePackage(Locator, byte-stream, options)\<close> creates an envelope, where "options
  include attaching an arbitrary label set"; "writes target a single new artifact
  identity and never rewrite existing artifacts (packages are immutable once created)".
  The store keeps its repositories and the packages of each in enumeration order; a new
  package goes to the end of its repository, and a repository that does not exist yet
  is added at the end.
\<close>

record Store =
  Repos :: "(string \<times> PackageEnvelope list) list"
  Blobs :: "Locator \<rightharpoonup> string"

definition service :: "Store \<Rightarrow> PackageService" where
  "service st =
     \<lparr>GetRepositories = Inr (map fst (Repos st)),
      GetPackages = (\<lambda>repo. case map_of (Repos st) repo of
                        None \<Rightarrow> Inl (NotFound ''repository %v not found'' [S repo])
                      | Some packs \<Rightarrow> Inr packs),
      ReadPackage = (\<lambda>l. case Blobs st l of
                        None \<Rightarrow> Inl (NotFound ''package %v not found'' [L l])
                      | Some b \<Rightarrow> Inr b)\<rparr>"

fun add_to_repo ::
  "string \<Rightarrow> PackageEnvelope \<Rightarrow> (string \<times> PackageEnvelope list) list
     \<Rightarrow> (string \<times> PackageEnvelope list) list" where
  "add_to_repo repo e [] = [(repo, [e])]"
| "add_to_repo repo e ((r, packs) # rs) =
     (if r = repo then (r, packs @ [e]) # rs else (r, packs) # add_to_repo repo e rs)"

definition CreatePackage ::
  "Store \<Rightarrow> Locator \<Rightarrow> string \<Rightarrow> (string \<rightharpoonup> string) \<Rightarrow> error + PackageEnvelope \<times> Store" where
  "CreatePackage st l data labels =
     (if list_ex (\<lambda>(r, packs). list_ex (\<lambda>e. Locator e = l) packs) (Repos st) then
        Inl (AlreadyExists ''package %v already exists'' [L l])
      else
        (let e = \<lparr>Locator = l, RuntimeLabels = labels\<rparr>
         in Inr (e, \<lparr>Repos = add_to_repo (Repository l) e (Repos st),
                     Blobs = (Blobs st)(l \<mapsto> data)\<rparr>)))"

section \<open>Configuration packages\<close>

text \<open>
  The archive and manifest functions that \<^verbatim>\<open>GetConfigPackage\<close> calls are not under \<^verbatim>\<open>src/\<close>;
  they are parameters, each of which may fail. \<^verbatim>\<open>ParseArgs\<close> stores the parsed arguments
  in the configuration of the manifest, which \<^verbatim>\<open>WriteConfigPackage\<close> then serialises.
\<close>

record 'c Manifest =
  Config :: "'c option"

record 'c Archive =
  DecompressStream :: "string \<Rightarrow> error + string"
  ReadManifest :: "string \<Rightarrow> error + 'c Manifest"
  ParseArgs :: "'c \<Rightarrow> string list \<Rightarrow> error + 'c"
  WriteConfigPackage :: "'c Manifest \<Rightarrow> error + string"

definition GetConfigPackage ::
  "'c Archive \<Rightarrow> PackageService \<Rightarrow> Locator \<Rightarrow> Locator \<Rightarrow> string list \<Rightarrow> error + string" where
  "GetConfigPackage a p loc confLoc args =
     (case ReadPackage p loc of
        Inl err \<Rightarrow> Inl err
      | Inr reader \<Rightarrow>
     (case DecompressStream a reader of
        Inl err \<Rightarrow> Inl err
      | Inr decompressed \<Rightarrow>
     (case ReadManifest a decompressed of
        Inl err \<Rightarrow> Inl err
      | Inr manifest \<Rightarrow>
     (case Config manifest of
        None \<Rightarrow> Inl (BadParameter ''manifest does not have configuration parameters'' [])
      | Some c \<Rightarrow>
     (case ParseArgs a c args of
        Inl err \<Rightarrow> Inl err
      | Inr c' \<Rightarrow>
     (case WriteConfigPackage a (manifest\<lparr>Config := Some c'\<rparr>) of
        Inl err \<Rightarrow> Inl err
      | Inr buf \<Rightarrow> Inr buf))))))"

text \<open>
  The caller's label map is given by its entries in the order in which the \<^verbatim>\<open>range\<close> loop
  visits them (Go leaves that order open; the keys of a map are distinct).
\<close>

fun insert_labels :: "(string \<times> string) list \<Rightarrow> (string \<rightharpoonup> string) \<Rightarrow> (string \<rightharpoonup> string)" where
  "insert_labels [] allLabels = allLabels"
| "insert_labels ((k, v) # labels) allLabels = insert_labels labels (allLabels(k \<mapsto> v))"

definition ConfigurePackage_labels :: "Locator \<Rightarrow> (string \<times> string) list \<Rightarrow> (string \<rightharpoonup> string)" where
  "ConfigurePackage_labels loc labels =
     insert_labels labels [ConfigLabel \<mapsto> String (ZeroVersion loc)]"

definition ConfigurePackage ::
  "'c Archive \<Rightarrow> Store \<Rightarrow> Locator \<Rightarrow> Locator \<Rightarrow> string list \<Rightarrow> (string \<times> string) list
     \<Rightarrow> error option \<times> Store" where
  "ConfigurePackage a st loc confLoc args labels =
     (case GetConfigPackage a (service st) loc confLoc args of
        Inl err \<Rightarrow> (Some err, st)
      | Inr reader \<Rightarrow>
          (case CreatePackage st confLoc reader (ConfigurePackage_labels loc labels) of
             Inl err \<Rightarrow> (Some err, st)
           | Inr (env, st') \<Rightarrow> (None, st')))"

definition ConfigLabels :: "Locator \<Rightarrow> string \<Rightarrow> (string \<rightharpoonup> string)" where
  "ConfigLabels loc purpose =
     [ConfigLabel \<mapsto> String (ZeroVersion loc), PurposeLabel \<mapsto> purpose]"

section \<open>Unpacking\<close>

text \<open>
  The file system is a state \<open>'fs\<close> that only the operating system and the archive
  library change. Their functions are not code of this repository; they are parameters.
  \<^verbatim>\<open>MkdirAll\<close> and \<^verbatim>\<open>Untar\<close> return the file system they leave behind also when they fail.
  Each function of the code returns, with its error and the new file system, the calls
  with an effect that it made, in order.
\<close>

record ('fs, 'o) OS =
  Stat :: "'fs \<Rightarrow> string \<Rightarrow> error + FileInfo"
  MkdirAll :: "'fs \<Rightarrow> string \<Rightarrow> error option \<times> 'fs"
  Untar :: "'fs \<Rightarrow> string \<Rightarrow> string \<Rightarrow> 'o \<Rightarrow> error option \<times> 'fs"
  GetStateDir :: "'fs \<Rightarrow> error + string"
  Join :: "string list \<Rightarrow> string"
  DefaultOptions :: 'o
  LocalDir :: string
  PackagesDir :: string
  UnpackedDir :: string

datatype effect = DidMkdirAll string | DidReadPackage Locator | DidUntar string

fun is_untar :: "effect \<Rightarrow> bool" where
  "is_untar (DidUntar _) = True"
| "is_untar _ = False"

definition PackagePath :: "('fs, 'o) OS \<Rightarrow> string \<Rightarrow> Locator \<Rightarrow> string" where
  "PackagePath os baseDir loc = Join os [baseDir, Repository loc, Name loc, Version loc]"

definition IsUnpacked :: "('fs, 'o) OS \<Rightarrow> 'fs \<Rightarrow> string \<Rightarrow> bool \<times> error option" where
  "IsUnpacked os fs targetDir =
     (case Stat os fs targetDir of
        Inl err \<Rightarrow> if IsNotExist err then (False, None) else (False, Some err)
      | Inr info \<Rightarrow>
          if \<not> IsDir info
          then (False, Some (Errorf ''expected %v to be a directory, got %v'' [S targetDir, F info]))
          else (True, None))"

definition Unpack ::
  "('fs, 'o) OS \<Rightarrow> PackageService \<Rightarrow> Locator \<Rightarrow> string \<Rightarrow> 'o option \<Rightarrow> 'fs
     \<Rightarrow> error option \<times> 'fs \<times> effect list" where
  "Unpack os p loc targetDir opts fs =
     (case (if targetDir = [] then
              (case GetStateDir os fs of
                 Inl err \<Rightarrow> Inl err
               | Inr stateDir \<Rightarrow>
                   Inr (PackagePath os
                          (Join os [stateDir, LocalDir os, PackagesDir os, UnpackedDir os]) loc))
            else Inr targetDir) of
        Inl err \<Rightarrow> (Some err, fs, [])
      | Inr dir \<Rightarrow>
          (case MkdirAll os fs dir of
             (Some err, fs1) \<Rightarrow> (Some err, fs1, [DidMkdirAll dir])
           | (None, fs1) \<Rightarrow>
               (case ReadPackage p loc of
                  Inl err \<Rightarrow> (Some err, fs1, [DidMkdirAll dir, DidReadPackage loc])
                | Inr reader \<Rightarrow>
                    (case Untar os fs1 reader dir
                            (case opts of None \<Rightarrow> DefaultOptions os | Some given \<Rightarrow> given) of
                       (err, fs2) \<Rightarrow>
                         (err, fs2, [DidMkdirAll dir, DidReadPackage loc, DidUntar dir])))))"

definition UnpackIfNotUnpacked ::
  "('fs, 'o) OS \<Rightarrow> PackageService \<Rightarrow> Locator \<Rightarrow> string \<Rightarrow> 'o option \<Rightarrow> 'fs
     \<Rightarrow> error option \<times> 'fs \<times> effect list" where
  "UnpackIfNotUnpacked os p loc targetDir opts fs =
     (case IsUnpacked os fs targetDir of
        (isUnpacked, Some err) \<Rightarrow> (Some err, fs, [])
      | (True, None) \<Rightarrow> (None, fs, [])
      | (False, None) \<Rightarrow> Unpack os p loc targetDir opts fs)"

text \<open>Two calls in succession: the errors of both, the last file system, all effects.\<close>

definition UnpackIfNotUnpacked_twice ::
  "('fs, 'o) OS \<Rightarrow> PackageService \<Rightarrow> Locator \<Rightarrow> string \<Rightarrow> 'o option \<Rightarrow> 'fs
     \<Rightarrow> (error option \<times> error option) \<times> 'fs \<times> effect list" where
  "UnpackIfNotUnpacked_twice os p loc targetDir opts fs =
     (case UnpackIfNotUnpacked os p loc targetDir opts fs of
        (err1, fs1, effs1) \<Rightarrow>
          (case UnpackIfNotUnpacked os p loc targetDir opts fs1 of
             (err2, fs2, effs2) \<Rightarrow> ((err1, err2), fs2, effs1 @ effs2)))"

section \<open>Dispatch of phase executors\<close>

definition updateInit :: string where "updateInit = ''update_init''"
definition updateChecks :: string where "updateChecks = ''update_checks''"
definition updateBootstrap :: string where "updateBootstrap = ''update_bootstrap''"
definition updateSystem :: string where "updateSystem = ''update_system''"
definition preUpdate :: string where "preUpdate = ''pre_update''"
definition coredns :: string where "coredns = ''coredns''"
definition updateApp :: string where "updateApp = ''update_app''"
definition electionStatus :: string where "electionStatus = ''election_status''"
definition taintNode :: string where "taintNode = ''taint_node''"
definition untaintNode :: string where "untaintNode = ''untaint_node''"
definition drainNode :: string where "drainNode = ''drain_node''"
definition uncordonNode :: string where "uncordonNode = ''uncordon_node''"
definition endpoints :: string where "endpoints = ''endpoints''"
definition config :: string where "config = ''config''"
definition kubeletPermissions :: string where "kubeletPermissions = ''kubelet_permissions''"
definition migrateLinks :: string where "migrateLinks = ''links''"
definition updateLabels :: string where "updateLabels = ''labels''"
definition migrateRoles :: string where "migrateRoles = ''roles''"
definition updateEtcdBackup :: string where "updateEtcdBackup = ''etcd_backup''"
definition updateEtcdShutdown :: string where "updateEtcdShutdown = ''etcd_shutdown''"
definition updateEtcdMaster :: string where "updateEtcdMaster = ''etcd_upgrade''"
definition updateEtcdRestore :: string where "updateEtcdRestore = ''etcd_restore''"
definition updateEtcdRestart :: string where "updateEtcdRestart = ''etcd_restart''"
definition updateEtcdRestartGravity :: string where "updateEtcdRestartGravity = ''etcd_restart_gravity''"
definition cleanupNode :: string where "cleanupNode = ''cleanup_node''"

record Phase =
  ID :: string
  Executor :: string

record OperationPlan =
  OperationType :: string

record ExecutorParams =
  Plan :: OperationPlan
  Phase :: Phase

record ('r, 'o) FSMConfig =
  Remote :: 'r
  Operator :: 'o

text \<open>
  The constructors of the phase executors are not under \<^verbatim>\<open>src/\<close>. A call of one of them,
  with the arguments the dispatcher passes, is a value; the parameter \<open>new\<close> of the
  dispatcher runs such a call and gives the executor or the error of the constructor.
\<close>

datatype ('r, 'o) constructor_call =
    NewUpdatePhaseInit "('r, 'o) FSMConfig" OperationPlan Phase
  | NewUpdatePhaseChecks "('r, 'o) FSMConfig" OperationPlan Phase 'r
  | NewUpdatePhaseBootstrap "('r, 'o) FSMConfig" OperationPlan Phase 'r
  | NewPhaseCoreDNS "('r, 'o) FSMConfig" OperationPlan Phase
  | NewUpdatePhaseSystem "('r, 'o) FSMConfig" OperationPlan Phase 'r
  | NewUpdatePhaseBeforeApp "('r, 'o) FSMConfig" OperationPlan Phase
  | NewUpdatePhaseApp "('r, 'o) FSMConfig" OperationPlan Phase
  | NewPhaseElectionChange OperationPlan Phase 'r 'o
  | NewPhaseTaint "('r, 'o) FSMConfig" OperationPlan Phase
  | NewPhaseUntaint "('r, 'o) FSMConfig" OperationPlan Phase
  | NewPhaseDrain "('r, 'o) FSMConfig" OperationPlan Phase
  | NewPhaseUncordon "('r, 'o) FSMConfig" OperationPlan Phase
  | NewPhaseEndpoints "('r, 'o) FSMConfig" OperationPlan Phase
  | NewUpdatePhaseConfig "('r, 'o) FSMConfig" ExecutorParams 'r
  | NewPhaseKubeletPermissions "('r, 'o) FSMConfig" OperationPlan Phase
  | NewPhaseMigrateLinks "('r, 'o) FSMConfig" OperationPlan Phase
  | NewPhaseUpdateLabels "('r, 'o) FSMConfig" OperationPlan Phase
  | NewPhaseMigrateRoles "('r, 'o) FSMConfig" OperationPlan Phase
  | NewPhaseUpgradeEtcdBackup "('r, 'o) FSMConfig" OperationPlan Phase
  | NewPhaseUpgradeEtcdShutdown "('r, 'o) FSMConfig" OperationPlan Phase
  | NewPhaseUpgradeEtcd "('r, 'o) FSMConfig" OperationPlan Phase
  | NewPhaseUpgradeEtcdRestore "('r, 'o) FSMConfig" OperationPlan Phase
  | NewPhaseUpgradeEtcdRestart "('r, 'o) FSMConfig" OperationPlan Phase
  | NewPhaseUpgradeGravitySiteRestart "('r, 'o) FSMConfig" OperationPlan Phase
  | NewGarbageCollectPhase OperationPlan Phase 'r

text \<open>
  \<open>OperationUpdate\<close> is the constant \<^verbatim>\<open>ops.OperationUpdate\<close>, declared outside \<^verbatim>\<open>src/\<close>: a
  parameter.
\<close>

definition fsmSpec ::
  "(('r, 'o) constructor_call \<Rightarrow> error + 'x) \<Rightarrow> string \<Rightarrow> ('r, 'o) FSMConfig
     \<Rightarrow> ExecutorParams \<Rightarrow> 'r \<Rightarrow> error + 'x" where
  "fsmSpec new OperationUpdate c p remote =
     (if Executor (Phase p) = [] then
        Inl (BadParameter ''error in plan, executor for phase %q was not specified''
               [S (ID (Phase p))])
      else if OperationType (Plan p) \<noteq> OperationUpdate then
        Inl (BadParameter ''unsupported operation %q'' [S (OperationType (Plan p))])
      else if Executor (Phase p) = updateInit then
        new (NewUpdatePhaseInit c (Plan p) (Phase p))
      else if Executor (Phase p) = updateChecks then
        new (NewUpdatePhaseChecks c (Plan p) (Phase p) (Remote c))
      else if Executor (Phase p) = updateBootstrap then
        new (NewUpdatePhaseBootstrap c (Plan p) (Phase p) remote)
      else if Executor (Phase p) = coredns then
        new (NewPhaseCoreDNS c (Plan p) (Phase p))
      else if Executor (Phase p) = updateSystem then
        new (NewUpdatePhaseSystem c (Plan p) (Phase p) remote)
      else if Executor (Phase p) = preUpdate then
        new (NewUpdatePhaseBeforeApp c (Plan p) (Phase p))
      else if Executor (Phase p) = updateApp then
        new (NewUpdatePhaseApp c (Plan p) (Phase p))
      else if Executor (Phase p) = electionStatus then
        new (NewPhaseElectionChange (Plan p) (Phase p) remote (Operator c))
      else if Executor (Phase p) = taintNode then
        new (NewPhaseTaint c (Plan p) (Phase p))
      else if Executor (Phase p) = untaintNode then
        new (NewPhaseUntaint c (Plan p) (Phase p))
      else if Executor (Phase p) = drainNode then
        new (NewPhaseDrain c (Plan p) (Phase p))
      else if Executor (Phase p) = uncordonNode then
        new (NewPhaseUncordon c (Plan p) (Phase p))
      else if Executor (Phase p) = endpoints then
        new (NewPhaseEndpoints c (Plan p) (Phase p))
      else if Executor (Phase p) = config then
        new (NewUpdatePhaseConfig c p remote)
      else if Executor (Phase p) = kubeletPermissions then
        new (NewPhaseKubeletPermissions c (Plan p) (Phase p))
      else if Executor (Phase p) = migrateLinks then
        new (NewPhaseMigrateLinks c (Plan p) (Phase p))
      else if Executor (Phase p) = updateLabels then
        new (NewPhaseUpdateLabels c (Plan p) (Phase p))
      else if Executor (Phase p) = migrateRoles then
        new (NewPhaseMigrateRoles c (Plan p) (Phase p))
      else if Executor (Phase p) = updateEtcdBackup then
        new (NewPhaseUpgradeEtcdBackup c (Plan p) (Phase p))
      else if Executor (Phase p) = updateEtcdShutdown then
        new (NewPhaseUpgradeEtcdShutdown c (Plan p) (Phase p))
      else if Executor (Phase p) = updateEtcdMaster then
        new (NewPhaseUpgradeEtcd c (Plan p) (Phase p))
      else if Executor (Phase p) = updateEtcdRestore then
        new (NewPhaseUpgradeEtcdRestore c (Plan p) (Phase p))
      else if Executor (Phase p) = updateEtcdRestart then
        new (NewPhaseUpgradeEtcdRestart c (Plan p) (Phase p))
      else if Executor (Phase p) = updateEtcdRestartGravity then
        new (NewPhaseUpgradeGravitySiteRestart c (Plan p) (Phase p))
      else if Executor (Phase p) = cleanupNode then
        new (NewGarbageCollectPhase (Plan p) (Phase p) remote)
      else
        Inl (BadParameter
               ''phase %q requires executor %q (potential mismatch between upgrade versions)''
               [S (ID (Phase p)), S (Executor (Phase p))]))"

text \<open>
  The closed vocabulary of executor names, and the name under which the dispatcher
  reaches each constructor (for stating what it dispatches to).
\<close>

definition vocabulary :: "string list" where
  "vocabulary =
     [updateInit, updateChecks, updateBootstrap, updateSystem, preUpdate, coredns, updateApp,
      electionStatus, taintNode, untaintNode, drainNode, uncordonNode, endpoints, config,
      kubeletPermissions, migrateLinks, updateLabels, migrateRoles, updateEtcdBackup,
      updateEtcdShutdown, updateEtcdMaster, updateEtcdRestore, updateEtcdRestart,
      updateEtcdRestartGravity, cleanupNode]"

fun executor_name :: "('r, 'o) constructor_call \<Rightarrow> string" where
  "executor_name (NewUpdatePhaseInit _ _ _) = updateInit"
| "executor_name (NewUpdatePhaseChecks _ _ _ _) = updateChecks"
| "executor_name (NewUpdatePhaseBootstrap _ _ _ _) = updateBootstrap"
| "executor_name (NewPhaseCoreDNS _ _ _) = coredns"
| "executor_name (NewUpdatePhaseSystem _ _ _ _) = updateSystem"
| "executor_name (NewUpdatePhaseBeforeApp _ _ _) = preUpdate"
| "executor_name (NewUpdatePhaseApp _ _ _) = updateApp"
| "executor_name (NewPhaseElectionChange _ _ _ _) = electionStatus"
| "executor_name (NewPhaseTaint _ _ _) = taintNode"
| "executor_name (NewPhaseUntaint _ _ _) = untaintNode"
| "executor_name (NewPhaseDrain _ _ _) = drainNode"
| "executor_name (NewPhaseUncordon _ _ _) = uncordonNode"
| "executor_name (NewPhaseEndpoints _ _ _) = endpoints"
| "executor_name (NewUpdatePhaseConfig _ _ _) = config"
| "executor_name (NewPhaseKubeletPermissions _ _ _) = kubeletPermissions"
| "executor_name (NewPhaseMigrateLinks _ _ _) = migrateLinks"
| "executor_name (NewPhaseUpdateLabels _ _ _) = updateLabels"
| "executor_name (NewPhaseMigrateRoles _ _ _) = migrateRoles"
| "executor_name (NewPhaseUpgradeEtcdBackup _ _ _) = updateEtcdBackup"
| "executor_name (NewPhaseUpgradeEtcdShutdown _ _ _) = updateEtcdShutdown"
| "executor_name (NewPhaseUpgradeEtcd _ _ _) = updateEtcdMaster"
| "executor_name (NewPhaseUpgradeEtcdRestore _ _ _) = updateEtcdRestore"
| "executor_name (NewPhaseUpgradeEtcdRestart _ _ _) = updateEtcdRestart"
| "executor_name (NewPhaseUpgradeGravitySiteRestart _ _ _) = updateEtcdRestartGravity"
| "executor_name (NewGarbageCollectPhase _ _ _) = cleanupNode"

section \<open>Example inputs\<close>

text \<open>
  The inputs of the witnesses and counterexamples below: locators of the line \<^verbatim>\<open>app/web\<close>,
  one of them with a version that does not parse, their envelopes, and stores with one
  repository \<^verbatim>\<open>app\<close>.
\<close>

definition web_100 :: Locator where
  "web_100 = \<lparr>Repository = ''app'', Name = ''web'', Version = ''1.0.0''\<rparr>"

definition web_120 :: Locator where
  "web_120 = \<lparr>Repository = ''app'', Name = ''web'', Version = ''1.2.0''\<rparr>"

definition v100 :: SemVersion where
  "v100 = \<lparr>Major = 1, Minor = 0, Patch = 0, PreRelease = [], Metadata = []\<rparr>"

definition v120 :: SemVersion where
  "v120 = \<lparr>Major = 1, Minor = 2, Patch = 0, PreRelease = [], Metadata = []\<rparr>"

definition web_bad :: Locator where
  "web_bad = \<lparr>Repository = ''app'', Name = ''web'', Version = ''bad''\<rparr>"

definition web_110 :: Locator where
  "web_110 = \<lparr>Repository = ''app'', Name = ''web'', Version = ''1.1.0''\<rparr>"

definition v110 :: SemVersion where
  "v110 = \<lparr>Major = 1, Minor = 1, Patch = 0, PreRelease = [], Metadata = []\<rparr>"

definition env_100 :: PackageEnvelope where
  "env_100 = \<lparr>Locator = web_100, RuntimeLabels = [InstalledLabel \<mapsto> InstalledLabel]\<rparr>"

definition env_110 :: PackageEnvelope where
  "env_110 = \<lparr>Locator = web_110, RuntimeLabels = Map.empty\<rparr>"

definition env_120 :: PackageEnvelope where
  "env_120 = \<lparr>Locator = web_120, RuntimeLabels = Map.empty\<rparr>"

definition env_bad :: PackageEnvelope where
  "env_bad = \<lparr>Locator = web_bad, RuntimeLabels = Map.empty\<rparr>"

definition is_web :: "PackageEnvelope \<Rightarrow> bool" where
  "is_web e = (Name (Locator e) = ''web'')"

definition store_of :: "PackageEnvelope list \<Rightarrow> Store" where
  "store_of packs = \<lparr>Repos = [(''app'', packs)], Blobs = Map.empty\<rparr>"

definition conf_120 :: Locator where
  "conf_120 = \<lparr>Repository = ''app'', Name = ''web-config'', Version = ''1.2.0''\<rparr>"

definition example_archive :: "unit Archive" where
  "example_archive =
     \<lparr>DecompressStream = Inr,
      ReadManifest = (\<lambda>tarball. Inr \<lparr>Config = Some ()\<rparr>),
      ParseArgs = (\<lambda>c args. Inr c),
      WriteConfigPackage = (\<lambda>manifest. Inr ''PORT=80'')\<rparr>"

definition example_store :: Store where
  "example_store = \<lparr>Repos = [(''app'', [env_120])], Blobs = [web_120 \<mapsto> ''tarball'']\<rparr>"

text \<open>
  A small file system for the examples: the list of the directories that exist. The empty
  path never exists and cannot be created, as for the operating system; unpacking an
  archive leaves the directories as they are.
\<close>

fun join_path :: "string list \<Rightarrow> string" where
  "join_path [] = []"
| "join_path [p] = p"
| "join_path (p # q # ps) = p @ ''/'' @ join_path (q # ps)"

definition dir_os :: "(string list, unit) OS" where
  "dir_os =
     \<lparr>Stat = (\<lambda>fs path. if path \<noteq> [] \<and> path \<in> set fs then Inr \<lparr>IsDir = True\<rparr>
                        else Inl (ErrNotExist path)),
      MkdirAll = (\<lambda>fs path. if path = [] then (Some (ErrNotExist path), fs)
                            else (None, path # fs)),
      Untar = (\<lambda>fs reader dir opts. (None, fs)),
      GetStateDir = (\<lambda>fs. Inr ''/var/lib/gravity''),
      Join = join_path,
      DefaultOptions = (),
      LocalDir = ''local'',
      PackagesDir = ''packages'',
      UnpackedDir = ''unpacked''\<rparr>"

definition default_dir :: string where
  "default_dir = ''/var/lib/gravity/local/packages/unpacked/app/web/1.2.0''"

definition example_new :: "(unit, unit) constructor_call \<Rightarrow> error + string" where
  "example_new call = Inr (executor_name call)"

definition example_config :: "(unit, unit) FSMConfig" where
  "example_config = \<lparr>Remote = (), Operator = ()\<rparr>"

definition example_params :: "string \<Rightarrow> string \<Rightarrow> ExecutorParams" where
  "example_params operation executor =
     \<lparr>Plan = \<lparr>OperationType = operation\<rparr>, Phase = \<lparr>ID = ''/init'', Executor = executor\<rparr>\<rparr>"

section \<open>Semantic-version precedence is a strict order\<close>

lemma cmp_nat_neg: "cmp_nat a b = - cmp_nat b a"
  by (simp add: cmp_nat_def)

lemma cmp_nat_trans: "cmp_nat a b = 1 \<Longrightarrow> cmp_nat b c = 1 \<Longrightarrow> cmp_nat a c = 1"
  by (simp add: cmp_nat_def split: if_splits)

lemma cmp_nat_cong: "cmp_nat a b = 0 \<Longrightarrow> cmp_nat a c = cmp_nat b c"
  by (simp add: cmp_nat_def split: if_splits)

lemma cmp_nat_range: "cmp_nat a b = 1 \<or> cmp_nat a b = 0 \<or> cmp_nat a b = -1"
  by (simp add: cmp_nat_def)

lemma lex_cmp_range:
  assumes "\<And>x y. c x y = 1 \<or> c x y = 0 \<or> c x y = -1"
  shows "lex_cmp c xs ys = 1 \<or> lex_cmp c xs ys = 0 \<or> lex_cmp c xs ys = -1"
  using assms by (induction c xs ys rule: lex_cmp.induct) auto

lemma lex_cmp_neg:
  assumes "\<And>x y. c x y = - c y x"
  shows "lex_cmp c xs ys = - lex_cmp c ys xs"
proof (induction xs arbitrary: ys)
  case Nil
  then show ?case by (cases ys) auto
next
  case (Cons x xs)
  show ?case
  proof (cases ys)
    case Nil
    then show ?thesis by simp
  next
    case (Cons y ys')
    then show ?thesis using assms[of x y] Cons.IH[of ys'] by auto
  qed
qed

lemma lex_cmp_cong:
  assumes "\<And>x y z. c x y = 0 \<Longrightarrow> c x z = c y z"
  shows "lex_cmp c xs ys = 0 \<Longrightarrow> lex_cmp c xs zs = lex_cmp c ys zs"
proof (induction xs arbitrary: ys zs)
  case Nil
  then show ?case by (cases ys) auto
next
  case (Cons x xs)
  then obtain y ys' where ys: "ys = y # ys'" by (cases ys) auto
  with Cons.prems have xy: "c x y = 0" and rest: "lex_cmp c xs ys' = 0"
    by (auto split: if_splits)
  show ?case
  proof (cases zs)
    case Nil
    then show ?thesis using ys by simp
  next
    case (Cons z zs')
    then show ?thesis
      using ys assms[OF xy, of z] Cons.IH[OF rest, of zs'] by simp
  qed
qed

lemma lex_cmp_trans:
  assumes range: "\<And>x y. c x y = 1 \<or> c x y = 0 \<or> c x y = -1"
    and neg: "\<And>x y. c x y = - c y x"
    and trans: "\<And>x y z. c x y = 1 \<Longrightarrow> c y z = 1 \<Longrightarrow> c x z = 1"
    and cong: "\<And>x y z. c x y = 0 \<Longrightarrow> c x z = c y z"
  shows "lex_cmp c xs ys = 1 \<Longrightarrow> lex_cmp c ys zs = 1 \<Longrightarrow> lex_cmp c xs zs = 1"
proof (induction xs arbitrary: ys zs)
  case Nil
  then show ?case by (cases ys) auto
next
  case (Cons x xs)
  show ?case
  proof (cases ys)
    case Nil
    with Cons.prems show ?thesis by (cases zs) auto
  next
    case ys: (Cons y ys')
    show ?thesis
    proof (cases zs)
      case Nil
      then show ?thesis by simp
    next
      case zs: (Cons z zs')
      from Cons.prems(1) ys have xy: "c x y = 1 \<or> (c x y = 0 \<and> lex_cmp c xs ys' = 1)"
        by (auto split: if_splits)
      from Cons.prems(2) ys zs have yz: "c y z = 1 \<or> (c y z = 0 \<and> lex_cmp c ys' zs' = 1)"
        by (auto split: if_splits)
      consider (a) "c x y = 1" "c y z = 1"
        | (b) "c x y = 1" "c y z = 0"
        | (c) "c x y = 0" "c y z = 1"
        | (d) "c x y = 0" "c y z = 0" "lex_cmp c xs ys' = 1" "lex_cmp c ys' zs' = 1"
        using xy yz by auto
      then show ?thesis
      proof cases
        case a
        then show ?thesis using trans[of x y z] zs by simp
      next
        case b
        have "c z y = 0" using neg[of z y] b by simp
        then have "c z x = c y x" by (rule cong)
        then have "c x z = 1" using neg[of x z] neg[of y x] b by simp
        then show ?thesis using zs by simp
      next
        case c
        then have "c x z = 1" using cong[of x y z] by simp
        then show ?thesis using zs by simp
      next
        case d
        then have "c x z = 0" using cong[of x y z] by simp
        then show ?thesis using zs d Cons.IH[of ys' zs'] by simp
      qed
    qed
  qed
qed

lemma cmp_char_range: "cmp_char a b = 1 \<or> cmp_char a b = 0 \<or> cmp_char a b = -1"
  by (simp add: cmp_char_def cmp_nat_range)

lemma cmp_char_neg: "cmp_char a b = - cmp_char b a"
  unfolding cmp_char_def by (rule cmp_nat_neg)

lemma cmp_char_trans: "cmp_char a b = 1 \<Longrightarrow> cmp_char b c = 1 \<Longrightarrow> cmp_char a c = 1"
  unfolding cmp_char_def by (rule cmp_nat_trans)

lemma cmp_char_cong: "cmp_char a b = 0 \<Longrightarrow> cmp_char a c = cmp_char b c"
  unfolding cmp_char_def by (rule cmp_nat_cong)

lemma str_cmp_range: "lex_cmp cmp_char a b = 1 \<or> lex_cmp cmp_char a b = 0 \<or> lex_cmp cmp_char a b = -1"
  by (rule lex_cmp_range[where c = cmp_char, OF cmp_char_range])

lemma str_cmp_neg: "lex_cmp cmp_char a b = - lex_cmp cmp_char b a"
  by (rule lex_cmp_neg[where c = cmp_char, OF cmp_char_neg])

lemma str_cmp_cong: "lex_cmp cmp_char a b = 0 \<Longrightarrow> lex_cmp cmp_char a c = lex_cmp cmp_char b c"
  by (rule lex_cmp_cong[where c = cmp_char, OF cmp_char_cong])

lemma str_cmp_trans:
  "lex_cmp cmp_char a b = 1 \<Longrightarrow> lex_cmp cmp_char b c = 1 \<Longrightarrow> lex_cmp cmp_char a c = 1"
  by (rule lex_cmp_trans[where c = cmp_char,
        OF cmp_char_range cmp_char_neg cmp_char_trans cmp_char_cong])

lemma cmp_ident_range: "cmp_ident a b = 1 \<or> cmp_ident a b = 0 \<or> cmp_ident a b = -1"
  using cmp_nat_range[of "nat_of_digits a" "nat_of_digits b"] str_cmp_range[of a b]
  by (auto simp: cmp_ident_def)

lemma cmp_ident_neg: "cmp_ident a b = - cmp_ident b a"
  using cmp_nat_neg[of "nat_of_digits a" "nat_of_digits b"] str_cmp_neg[of a b]
  by (auto simp: cmp_ident_def)

lemma cmp_ident_digits:
  "all_digits a \<Longrightarrow> all_digits b \<Longrightarrow> cmp_ident a b = cmp_nat (nat_of_digits a) (nat_of_digits b)"
  by (simp add: cmp_ident_def)

lemma cmp_ident_alpha:
  "\<not> all_digits a \<Longrightarrow> \<not> all_digits b \<Longrightarrow> cmp_ident a b = lex_cmp cmp_char a b"
  by (simp add: cmp_ident_def)

lemma cmp_ident_mixed1: "all_digits a \<Longrightarrow> \<not> all_digits b \<Longrightarrow> cmp_ident a b = -1"
  by (simp add: cmp_ident_def)

lemma cmp_ident_mixed2: "\<not> all_digits a \<Longrightarrow> all_digits b \<Longrightarrow> cmp_ident a b = 1"
  by (simp add: cmp_ident_def)

lemma cmp_ident_trans: "cmp_ident a b = 1 \<Longrightarrow> cmp_ident b c = 1 \<Longrightarrow> cmp_ident a c = 1"
proof -
  assume ab: "cmp_ident a b = 1" and bc: "cmp_ident b c = 1"
  show ?thesis
  proof (cases "all_digits a")
    case da: True
    then have db: "all_digits b" using ab cmp_ident_mixed1[of a b] by auto
    then have dc: "all_digits c" using bc cmp_ident_mixed1[of b c] by auto
    show ?thesis
      using ab bc cmp_nat_trans[of "nat_of_digits a" "nat_of_digits b" "nat_of_digits c"]
      by (simp add: cmp_ident_digits da db dc)
  next
    case na: False
    show ?thesis
    proof (cases "all_digits c")
      case True
      then show ?thesis using na by (simp add: cmp_ident_mixed2)
    next
      case nc: False
      then have nb: "\<not> all_digits b" using bc cmp_ident_mixed1[of b c] by auto
      show ?thesis
        using ab bc str_cmp_trans[of a b c] by (simp add: cmp_ident_alpha na nb nc)
    qed
  qed
qed

lemma cmp_ident_cong: "cmp_ident a b = 0 \<Longrightarrow> cmp_ident a c = cmp_ident b c"
proof -
  assume ab: "cmp_ident a b = 0"
  show ?thesis
  proof (cases "all_digits a")
    case da: True
    then have db: "all_digits b" using ab cmp_ident_mixed1[of a b] by auto
    show ?thesis
    proof (cases "all_digits c")
      case True
      then show ?thesis
        using ab cmp_nat_cong[of "nat_of_digits a" "nat_of_digits b" "nat_of_digits c"]
        by (simp add: cmp_ident_digits da db)
    next
      case False
      then show ?thesis by (simp add: cmp_ident_mixed1 da db)
    qed
  next
    case na: False
    then have nb: "\<not> all_digits b" using ab cmp_ident_mixed2[of a b] by auto
    show ?thesis
    proof (cases "all_digits c")
      case True
      then show ?thesis by (simp add: cmp_ident_mixed2 na nb)
    next
      case False
      then show ?thesis
        using ab str_cmp_cong[of a b c] by (simp add: cmp_ident_alpha na nb)
    qed
  qed
qed

lemma pre_cmp_range: "lex_cmp cmp_ident a b = 1 \<or> lex_cmp cmp_ident a b = 0 \<or> lex_cmp cmp_ident a b = -1"
  by (rule lex_cmp_range[where c = cmp_ident, OF cmp_ident_range])

lemma pre_cmp_neg: "lex_cmp cmp_ident a b = - lex_cmp cmp_ident b a"
  by (rule lex_cmp_neg[where c = cmp_ident, OF cmp_ident_neg])

lemma pre_cmp_cong: "lex_cmp cmp_ident a b = 0 \<Longrightarrow> lex_cmp cmp_ident a c = lex_cmp cmp_ident b c"
  by (rule lex_cmp_cong[where c = cmp_ident, OF cmp_ident_cong])

lemma pre_cmp_trans:
  "lex_cmp cmp_ident a b = 1 \<Longrightarrow> lex_cmp cmp_ident b c = 1 \<Longrightarrow> lex_cmp cmp_ident a c = 1"
  by (rule lex_cmp_trans[where c = cmp_ident,
        OF cmp_ident_range cmp_ident_neg cmp_ident_trans cmp_ident_cong])

lemma lex_cmp_Nil_left: "lex_cmp c [] ys = (if ys = [] then 0 else -1)"
  by (cases ys) auto

lemma lex_cmp_Nil_right: "lex_cmp c xs [] = (if xs = [] then 0 else 1)"
  by (cases xs) auto

lemma preReleaseCompare_range:
  "preReleaseCompare v w = 1 \<or> preReleaseCompare v w = 0 \<or> preReleaseCompare v w = -1"
  using pre_cmp_range[of "PreRelease v" "PreRelease w"]
  by (auto simp: preReleaseCompare_def)

lemma preReleaseCompare_neg: "preReleaseCompare v w = - preReleaseCompare w v"
  using pre_cmp_neg[of "PreRelease v" "PreRelease w"]
  by (auto simp: preReleaseCompare_def)

lemma preReleaseCompare_Nil_left:
  "PreRelease v = [] \<Longrightarrow> preReleaseCompare v w = (if PreRelease w = [] then 0 else 1)"
  by (simp add: preReleaseCompare_def)

lemma preReleaseCompare_Nil_right:
  "PreRelease w = [] \<Longrightarrow> preReleaseCompare v w = (if PreRelease v = [] then 0 else -1)"
  by (simp add: preReleaseCompare_def)

lemma preReleaseCompare_Cons:
  "PreRelease v \<noteq> [] \<Longrightarrow> PreRelease w \<noteq> [] \<Longrightarrow>
   preReleaseCompare v w = lex_cmp cmp_ident (PreRelease v) (PreRelease w)"
  by (simp add: preReleaseCompare_def)

lemma preReleaseCompare_trans:
  assumes uv: "preReleaseCompare u v = 1" and vw: "preReleaseCompare v w = 1"
  shows "preReleaseCompare u w = 1"
proof -
  have v: "PreRelease v \<noteq> []"
    using uv preReleaseCompare_Nil_right[of v u] by (auto split: if_splits)
  have w: "PreRelease w \<noteq> []"
    using vw preReleaseCompare_Nil_right[of w v] by (auto split: if_splits)
  show ?thesis
  proof (cases "PreRelease u = []")
    case True
    then show ?thesis using w by (simp add: preReleaseCompare_Nil_left)
  next
    case False
    then show ?thesis
      using uv vw v w pre_cmp_trans[of "PreRelease u" "PreRelease v" "PreRelease w"]
      by (simp add: preReleaseCompare_Cons)
  qed
qed

lemma preReleaseCompare_cong:
  assumes uv: "preReleaseCompare u v = 0"
  shows "preReleaseCompare u w = preReleaseCompare v w"
proof (cases "PreRelease u = []")
  case True
  then have "PreRelease v = []" using uv by (simp add: preReleaseCompare_Nil_left split: if_splits)
  with True show ?thesis by (simp add: preReleaseCompare_Nil_left)
next
  case u: False
  then have v: "PreRelease v \<noteq> []"
    using uv preReleaseCompare_Nil_right[of v u] by (auto split: if_splits)
  show ?thesis
  proof (cases "PreRelease w = []")
    case True
    then show ?thesis using u v by (simp add: preReleaseCompare_Nil_right)
  next
    case False
    then show ?thesis
      using uv u v pre_cmp_cong[of "PreRelease u" "PreRelease v" "PreRelease w"]
      by (simp add: preReleaseCompare_Cons)
  qed
qed

lemma slice_cmp_range:
  "lex_cmp cmp_nat a b = 1 \<or> lex_cmp cmp_nat a b = 0 \<or> lex_cmp cmp_nat a b = -1"
  by (rule lex_cmp_range[where c = cmp_nat, OF cmp_nat_range])

lemma slice_cmp_neg: "lex_cmp cmp_nat a b = - lex_cmp cmp_nat b a"
  by (rule lex_cmp_neg[where c = cmp_nat, OF cmp_nat_neg])

lemma slice_cmp_cong: "lex_cmp cmp_nat a b = 0 \<Longrightarrow> lex_cmp cmp_nat a c = lex_cmp cmp_nat b c"
  by (rule lex_cmp_cong[where c = cmp_nat, OF cmp_nat_cong])

lemma slice_cmp_trans:
  "lex_cmp cmp_nat a b = 1 \<Longrightarrow> lex_cmp cmp_nat b c = 1 \<Longrightarrow> lex_cmp cmp_nat a c = 1"
  by (rule lex_cmp_trans[where c = cmp_nat,
        OF cmp_nat_range cmp_nat_neg cmp_nat_trans cmp_nat_cong])

lemma Compare_range: "Compare v w = 1 \<or> Compare v w = 0 \<or> Compare v w = -1"
  using slice_cmp_range[of "Slice v" "Slice w"] preReleaseCompare_range[of v w]
  by (auto simp: Compare_def)

lemma Compare_neg: "Compare v w = - Compare w v"
  using slice_cmp_neg[of "Slice v" "Slice w"] preReleaseCompare_neg[of v w]
  by (auto simp: Compare_def)

lemma Compare_refl: "Compare v v = 0"
  using Compare_neg[of v v] by simp

lemma Compare_trans1:
  assumes uv: "Compare u v = 1" and vw: "Compare v w = 1"
  shows "Compare u w = 1"
proof -
  let ?c = "lex_cmp cmp_nat"
  from uv have uv': "?c (Slice u) (Slice v) = 1
      \<or> (?c (Slice u) (Slice v) = 0 \<and> preReleaseCompare u v = 1)"
    by (auto simp: Compare_def split: if_splits)
  from vw have vw': "?c (Slice v) (Slice w) = 1
      \<or> (?c (Slice v) (Slice w) = 0 \<and> preReleaseCompare v w = 1)"
    by (auto simp: Compare_def split: if_splits)
  consider (a) "?c (Slice u) (Slice v) = 1" "?c (Slice v) (Slice w) = 1"
    | (b) "?c (Slice u) (Slice v) = 1" "?c (Slice v) (Slice w) = 0"
    | (c) "?c (Slice u) (Slice v) = 0" "?c (Slice v) (Slice w) = 1"
    | (d) "?c (Slice u) (Slice v) = 0" "?c (Slice v) (Slice w) = 0"
          "preReleaseCompare u v = 1" "preReleaseCompare v w = 1"
    using uv' vw' by auto
  then show ?thesis
  proof cases
    case a
    then have "?c (Slice u) (Slice w) = 1" by (rule slice_cmp_trans)
    then show ?thesis by (simp add: Compare_def)
  next
    case b
    have "?c (Slice w) (Slice v) = 0" using slice_cmp_neg[of "Slice w" "Slice v"] b by simp
    then have "?c (Slice w) (Slice u) = ?c (Slice v) (Slice u)" by (rule slice_cmp_cong)
    then have "?c (Slice u) (Slice w) = 1"
      using slice_cmp_neg[of "Slice u" "Slice w"] slice_cmp_neg[of "Slice v" "Slice u"] b
      by simp
    then show ?thesis by (simp add: Compare_def)
  next
    case c
    then have "?c (Slice u) (Slice w) = 1" using slice_cmp_cong[of "Slice u" "Slice v" "Slice w"] by simp
    then show ?thesis by (simp add: Compare_def)
  next
    case d
    then have "?c (Slice u) (Slice w) = 0" using slice_cmp_cong[of "Slice u" "Slice v" "Slice w"] by simp
    moreover have "preReleaseCompare u w = 1" using d by (blast intro: preReleaseCompare_trans)
    ultimately show ?thesis by (simp add: Compare_def)
  qed
qed

lemma Compare_gt_iff: "Compare v w > 0 \<longleftrightarrow> Compare v w = 1"
  using Compare_range[of v w] by auto

lemma Compare_trans: "Compare u v > 0 \<Longrightarrow> Compare v w > 0 \<Longrightarrow> Compare u w > 0"
  unfolding Compare_gt_iff by (rule Compare_trans1)

lemma LessThan_iff_Compare: "LessThan v w \<longleftrightarrow> Compare w v > 0"
  using Compare_neg[of v w] by (simp add: LessThan_def)

lemma LessThan_trans: "LessThan u v \<Longrightarrow> LessThan v w \<Longrightarrow> LessThan u w"
  unfolding LessThan_iff_Compare by (rule Compare_trans[rotated])

lemma LessThan_asym: "LessThan u v \<Longrightarrow> \<not> LessThan v u"
  using Compare_neg[of u v] by (simp add: LessThan_def)

section \<open>Validating an update\<close>

lemma SemVer_web_100: "SemVer web_100 = Inr v100"
  by code_simp

lemma SemVer_web_120: "SemVer web_120 = Inr v120"
  by code_simp

lemma v100_less_v120: "LessThan v100 v120"
  by code_simp

text \<open>
  C1. When both version strings parse, \<^verbatim>\<open>CheckUpdatePackage\<close> succeeds exactly when
  repository and name agree and the version grows strictly under semantic-version
  precedence, and every failure then is a \<^verbatim>\<open>BadParameter\<close> error.
\<close>

theorem CheckUpdatePackage_iff:
  assumes "SemVer from = Inr fromVer" and "SemVer to = Inr toVer"
  shows "(CheckUpdatePackage from to = None \<longleftrightarrow>
            Repository from = Repository to \<and> Name from = Name to \<and> LessThan fromVer toVer)
         \<and> (CheckUpdatePackage from to \<noteq> None \<longrightarrow>
            (\<exists>e. CheckUpdatePackage from to = Some e \<and> IsBadParameter e))"
  using assms by (auto simp: CheckUpdatePackage_def)

theorem CheckUpdatePackage_iff_witness:
  "SemVer web_100 = Inr v100 \<and> SemVer web_120 = Inr v120
   \<and> CheckUpdatePackage web_100 web_120 = None
   \<and> (\<exists>e. CheckUpdatePackage web_120 web_100 = Some e \<and> IsBadParameter e)"
proof -
  have same: "Repository web_100 = Repository web_120 \<and> Name web_100 = Name web_120"
    by code_simp
  have "CheckUpdatePackage web_100 web_120 = None"
    using CheckUpdatePackage_iff[OF SemVer_web_100 SemVer_web_120] v100_less_v120 same
    by simp
  moreover have "CheckUpdatePackage web_120 web_100 \<noteq> None"
    using CheckUpdatePackage_iff[OF SemVer_web_120 SemVer_web_100]
      LessThan_asym[OF v100_less_v120]
    by simp
  then have "\<exists>e. CheckUpdatePackage web_120 web_100 = Some e \<and> IsBadParameter e"
    using CheckUpdatePackage_iff[OF SemVer_web_120 SemVer_web_100] by blast
  ultimately show ?thesis using SemVer_web_100 SemVer_web_120 by simp
qed

section \<open>Scans over the store\<close>

text \<open>
  A callback that never fails is a fold over the envelopes visited; the error of the
  scan is then the error of the service call that cut the enumeration short.
\<close>

lemma foreach_packs_total:
  assumes "\<And>s e. fst (fn s e) = None"
  shows "foreach_packs fn es s = (None, fold (\<lambda>e s. snd (fn s e)) es s)"
proof (induction es arbitrary: s)
  case Nil
  then show ?case by simp
next
  case (Cons e es)
  obtain s' where "fn s e = (None, s')" using assms[of s e] by (cases "fn s e") auto
  then show ?case using Cons.IH[of s'] by simp
qed

lemma foreach_repos_total:
  assumes "\<And>s e. fst (fn s e) = None"
  shows "foreach_repos p fn repos s =
         (snd (visited p repos), fold (\<lambda>e s. snd (fn s e)) (fst (visited p repos)) s)"
proof (induction repos arbitrary: s)
  case Nil
  then show ?case by simp
next
  case (Cons r rs)
  show ?case
  proof (cases "GetPackages p r")
    case (Inl err)
    then show ?thesis by (simp add: ForeachPackageInRepo_def)
  next
    case (Inr packs)
    then show ?thesis
      using Cons.IH[of "fold (\<lambda>e s. snd (fn s e)) packs s"]
      by (simp add: ForeachPackageInRepo_def foreach_packs_total[OF assms] split: prod.splits)
  qed
qed

lemma ForeachPackage_total:
  assumes "\<And>s e. fst (fn s e) = None"
  shows "ForeachPackage p fn s =
         (snd (enumeration p), fold (\<lambda>e s. snd (fn s e)) (fst (enumeration p)) s)"
  by (simp add: ForeachPackage_def enumeration_def foreach_repos_total[OF assms]
      split: sum.splits)

lemma scan_total:
  assumes "\<And>s e. fst (fn s e) = None"
  shows "(if repository \<noteq> [] then ForeachPackageInRepo p repository fn s
          else ForeachPackage p fn s) =
         (snd (scanned p repository), fold (\<lambda>e s. snd (fn s e)) (fst (scanned p repository)) s)"
  by (simp add: scanned_def ForeachPackage_total[OF assms] ForeachPackageInRepo_def
      foreach_packs_total[OF assms] split: sum.splits)

lemma enumeration_store_of: "enumeration (service (store_of packs)) = (packs, None)"
  by (simp add: enumeration_def service_def store_of_def)

lemma scanned_store_of: "scanned (service (store_of packs)) ''app'' = (packs, None)"
  by (simp add: scanned_def service_def store_of_def)

subsection \<open>FindPackage\<close>

lemma FindPackage_fn_total: "fst (FindPackage_fn fn env e) = None"
  by (simp add: FindPackage_fn_def)

lemma fold_FindPackage_fn:
  "fold (\<lambda>e env. snd (FindPackage_fn fn env e)) es env =
   (if filter fn es = [] then env else Some (last (filter fn es)))"
  by (induction es arbitrary: env) (auto simp: FindPackage_fn_def)

lemma FindPackage_scan:
  "FindPackage packages fn =
     (if filter fn (fst (enumeration packages)) = []
      then (None, Some (NotFound ''package not found'' []))
      else (Some (last (filter fn (fst (enumeration packages)))), snd (enumeration packages)))"
  by (simp add: FindPackage_def ForeachPackage_total[OF FindPackage_fn_total]
      fold_FindPackage_fn)

text \<open>
  C6, as stated, fails: the callback of \<^verbatim>\<open>FindPackage\<close> never stops the iteration and
  assigns at every match. In a store with the packages 1.0.0 and 1.2.0 of \<^verbatim>\<open>app/web\<close>, in
  this order, the first envelope that satisfies the predicate is 1.0.0 and \<^verbatim>\<open>FindPackage\<close>
  returns 1.2.0.
\<close>

theorem FindPackage_first_counterexample:
  "find is_web (fst (enumeration (service (store_of [env_100, env_120])))) = Some env_100
   \<and> FindPackage (service (store_of [env_100, env_120])) is_web = (Some env_120, None)
   \<and> env_120 \<noteq> env_100"
  by (simp add: FindPackage_scan enumeration_store_of is_web_def env_100_def env_120_def
      web_100_def web_120_def)

text \<open>
  C6, amended. \<^verbatim>\<open>FindPackage\<close> returns the last envelope, in store enumeration order, that
  satisfies the predicate among the envelopes \<open>es\<close> enumerated (all of them, unless a call
  of the service fails), together with the error \<open>err\<close> of the failed service call if there
  was one; when no enumerated envelope satisfies the predicate it returns no envelope
  and the not-found error.
\<close>

theorem FindPackage_last:
  assumes "enumeration packages = (es, err)"
  shows "FindPackage packages fn =
     (if filter fn es = [] then (None, Some (NotFound ''package not found'' []))
      else (Some (last (filter fn es)), err))"
  using assms by (simp add: FindPackage_scan)

theorem FindPackage_last_witness:
  "enumeration (service (store_of [env_100, env_120])) = ([env_100, env_120], None)
   \<and> FindPackage (service (store_of [env_100, env_120])) is_web = (Some env_120, None)
   \<and> FindPackage (service (store_of [env_100, env_120])) (HasLabel_config web_100) =
       (None, Some (NotFound ''package not found'' []))"
  using FindPackage_last[OF enumeration_store_of, of "[env_100, env_120]" is_web]
    FindPackage_last[OF enumeration_store_of, of "[env_100, env_120]" "HasLabel_config web_100"]
  by (simp add: enumeration_store_of is_web_def HasLabel_config_def HasLabel_def env_100_def
      env_120_def web_100_def web_120_def ConfigLabel_def InstalledLabel_def)

subsection \<open>FindLatestPackagePredicate\<close>


lemma FindLatest_predicate_total: "fst (FindLatest_predicate f m e) = None"
  by (simp add: FindLatest_predicate_def split: option.splits sum.splits)

lemma FindLatestPackagePredicate_scan:
  "FindLatestPackagePredicate p repository f =
     (case snd (scanned p repository) of
        Some err \<Rightarrow> (None, Some err)
      | None \<Rightarrow>
          (case fold (\<lambda>e m. snd (FindLatest_predicate f m e)) (fst (scanned p repository)) None of
             None \<Rightarrow> (None, Some (NotFound ''latest package not found'' []))
           | Some m \<Rightarrow> (Some m, None)))"
  unfolding FindLatestPackagePredicate_def scan_total[OF FindLatest_predicate_total]
  by (simp split: option.splits)

lemma fold_latest_keep:
  assumes "SemVer lm = Inr vm"
    and "\<forall>e\<in>set es. f e \<longrightarrow> (\<exists>v. SemVer (Locator e) = Inr v \<and> \<not> Compare v vm > 0)"
  shows "fold (\<lambda>e m. snd (FindLatest_predicate f m e)) es (Some lm) = Some lm"
  using assms(2)
proof (induction es)
  case Nil
  then show ?case by simp
next
  case (Cons e es)
  have "snd (FindLatest_predicate f (Some lm) e) = Some lm"
    using Cons.prems assms(1) by (auto simp: FindLatest_predicate_def)
  then show ?case using Cons by simp
qed

lemma fold_latest_reach:
  assumes vm: "SemVer (Locator m) = Inr vm" and fm: "f m"
  shows "m \<in> set es \<Longrightarrow>
    \<forall>e\<in>set es. f e \<longrightarrow>
      Locator e = Locator m \<or> (\<exists>v. SemVer (Locator e) = Inr v \<and> Compare vm v > 0) \<Longrightarrow>
    acc = None \<or> (\<exists>l v. acc = Some l \<and> SemVer l = Inr v \<and> Compare vm v > 0) \<Longrightarrow>
    fold (\<lambda>e m. snd (FindLatest_predicate f m e)) es acc = Some (Locator m)"
proof (induction es arbitrary: acc)
  case Nil
  then show ?case by simp
next
  case (Cons e es)
  let ?step = "\<lambda>e m. snd (FindLatest_predicate f m e)"
  show ?case
  proof (cases "f e")
    case False
    then have "?step e acc = acc" by (simp add: FindLatest_predicate_def)
    moreover have "m \<in> set es" using Cons.prems(1) False fm by auto
    ultimately show ?thesis using Cons.IH[of acc] Cons.prems(2,3) by simp
  next
    case fe: True
    show ?thesis
    proof (cases "Locator e = Locator m")
      case True
      have "?step e acc = Some (Locator m)"
        using Cons.prems(3) fe True vm by (auto simp: FindLatest_predicate_def)
      moreover have "\<forall>e'\<in>set es. f e' \<longrightarrow> (\<exists>v. SemVer (Locator e') = Inr v \<and> \<not> Compare v vm > 0)"
      proof (intro ballI impI)
        fix e' assume "e' \<in> set es" and "f e'"
        then have "Locator e' = Locator m \<or> (\<exists>v. SemVer (Locator e') = Inr v \<and> Compare vm v > 0)"
          using Cons.prems(2) by simp
        then show "\<exists>v. SemVer (Locator e') = Inr v \<and> \<not> Compare v vm > 0"
        proof
          assume "Locator e' = Locator m"
          then show ?thesis using vm Compare_refl[of vm] by simp
        next
          assume "\<exists>v. SemVer (Locator e') = Inr v \<and> Compare vm v > 0"
          then obtain v where "SemVer (Locator e') = Inr v" and "Compare vm v > 0" by blast
          then show ?thesis using Compare_neg[of v vm] by simp
        qed
      qed
      ultimately show ?thesis using fold_latest_keep[OF vm, of es f] by simp
    next
      case False
      then obtain v where v: "SemVer (Locator e) = Inr v" and lt: "Compare vm v > 0"
        using Cons.prems(2) fe by auto
      have "?step e acc = Some (Locator e) \<or> ?step e acc = acc \<and> acc \<noteq> None"
        using fe by (auto simp: FindLatest_predicate_def split: option.splits sum.splits)
      then have "?step e acc = None
          \<or> (\<exists>l v. ?step e acc = Some l \<and> SemVer l = Inr v \<and> Compare vm v > 0)"
        using v lt Cons.prems(3) by auto
      moreover have "m \<in> set es" using Cons.prems(1) False by auto
      ultimately show ?thesis using Cons.IH[of "?step e acc"] Cons.prems(2) by simp
    qed
  qed
qed

lemma FindLatestPackagePredicate_three_one:
  assumes scan: "scanned packages repository = (es, None)"
    and three: "mset (filter f es) = {#ea, eb, ec#}"
    and a: "SemVer (Locator ea) = Inr a" and b: "SemVer (Locator eb) = Inr b"
    and c: "SemVer (Locator ec) = Inr c"
    and ab: "LessThan a b" and bc: "LessThan b c"
  shows "FindLatestPackagePredicate packages repository f = (Some (Locator ec), None)"
proof -
  have "set (filter f es) = {ea, eb, ec}"
    using three by (metis set_mset_mset set_mset_add_mset_insert set_mset_empty)
  then have mem: "ec \<in> set es" and fc: "f ec"
    and all: "\<forall>e\<in>set es. f e \<longrightarrow> e = ea \<or> e = eb \<or> e = ec"
    by auto
  have cb: "Compare c b > 0" using bc by (simp add: LessThan_iff_Compare)
  have ca: "Compare c a > 0" using LessThan_trans[OF ab bc] by (simp add: LessThan_iff_Compare)
  have "\<forall>e\<in>set es. f e \<longrightarrow>
      Locator e = Locator ec \<or> (\<exists>v. SemVer (Locator e) = Inr v \<and> Compare c v > 0)"
    using all a b ca cb by auto
  then have "fold (\<lambda>e m. snd (FindLatest_predicate f m e)) es None = Some (Locator ec)"
    using fold_latest_reach[where m = ec and f = f and es = es and acc = None, OF c fc mem]
    by simp
  then show ?thesis using scan by (simp add: FindLatestPackagePredicate_scan)
qed

text \<open>Facts about the example envelopes.\<close>

lemma SemVer_web_110: "SemVer web_110 = Inr v110"
  by code_simp

lemma SemVer_web_bad: "SemVer web_bad = Inl (MalformedVersion ''bad'')"
  by code_simp

lemma v110_less_v120: "LessThan v110 v120"
  by code_simp

lemma v100_less_v110: "LessThan v100 v110"
  by code_simp

lemma web_fields [simp]:
  "Repository web_100 = ''app''" "Name web_100 = ''web''"
  "Repository web_110 = ''app''" "Name web_110 = ''web''"
  "Repository web_120 = ''app''" "Name web_120 = ''web''"
  "Repository web_bad = ''app''" "Name web_bad = ''web''"
  by (simp_all add: web_100_def web_110_def web_120_def web_bad_def)


lemma Locator_env [simp]:
  "Locator env_100 = web_100" "Locator env_110 = web_110" "Locator env_120 = web_120"
  "Locator env_bad = web_bad"
  by (simp_all add: env_100_def env_110_def env_120_def env_bad_def)

lemma is_web_env [simp]: "is_web env_100" "is_web env_110" "is_web env_120" "is_web env_bad"
  by (simp_all add: is_web_def web_100_def web_110_def web_120_def web_bad_def)

text \<open>
  C2. When the scan visits, among the envelopes that satisfy the predicate, exactly three,
  with versions that parse and \<open>a < b < c\<close>, the result is the locator of the envelope at
  \<open>c\<close>; a second service that enumerates the same envelopes in another order (the same
  multiset) gives the same result.
\<close>

theorem FindLatestPackagePredicate_three:
  assumes "scanned packages repository = (es, None)"
    and "scanned packages' repository = (es', None)"
    and "mset es' = mset es"
    and "mset (filter f es) = {#ea, eb, ec#}"
    and "SemVer (Locator ea) = Inr a" and "SemVer (Locator eb) = Inr b"
    and "SemVer (Locator ec) = Inr c"
    and "LessThan a b" and "LessThan b c"
  shows "FindLatestPackagePredicate packages repository f = (Some (Locator ec), None)
       \<and> FindLatestPackagePredicate packages' repository f = (Some (Locator ec), None)"
proof -
  have "mset (filter f es') = mset (filter f es)"
    using assms(3) by simp
  then have "mset (filter f es') = {#ea, eb, ec#}" using assms(4) by simp
  then show ?thesis
    using assms FindLatestPackagePredicate_three_one by blast
qed

theorem FindLatestPackagePredicate_three_witness:
  "FindLatestPackagePredicate (service (store_of [env_100, env_110, env_120])) ''app'' is_web
     = (Some web_120, None)
   \<and> FindLatestPackagePredicate (service (store_of [env_120, env_100, env_110])) ''app'' is_web
     = (Some web_120, None)"
proof -
  have m: "mset [env_120, env_100, env_110] = mset [env_100, env_110, env_120]"
    by simp
  have f: "mset (filter is_web [env_100, env_110, env_120]) = {#env_100, env_110, env_120#}"
    by simp
  show ?thesis
    using FindLatestPackagePredicate_three[OF scanned_store_of scanned_store_of m f,
        of v100 v110 v120]
      SemVer_web_100 SemVer_web_110 SemVer_web_120 v100_less_v110 v110_less_v120
    by simp
qed

text \<open>
  The scan itself never fails on a version: an error of \<^verbatim>\<open>FindLatestPackagePredicate\<close> is the
  error of a failed service call or the not-found error.
\<close>

lemma FindLatestPackagePredicate_errors:
  "FindLatestPackagePredicate p repository f = (l, Some err) \<Longrightarrow>
   l = None \<and> (snd (scanned p repository) = Some err
      \<or> (snd (scanned p repository) = None \<and> err = NotFound ''latest package not found'' []))"
  by (auto simp: FindLatestPackagePredicate_scan split: option.splits)

text \<open>
  C3. The first envelope that satisfies the predicate becomes the running maximum without
  its version being parsed, and a maximum that does not parse is never replaced. In a store
  with \<^verbatim>\<open>app/web:bad\<close> before \<^verbatim>\<open>app/web:1.0.0\<close> the result is \<^verbatim>\<open>app/web:bad\<close>, whose
  version does not parse, although 1.0.0 parses.
\<close>

theorem FindLatestPackagePredicate_malformed_first:
  "FindLatestPackagePredicate (service (store_of [env_bad, env_100])) ''app'' is_web
     = (Some web_bad, None)
   \<and> SemVer web_bad = Inl (MalformedVersion ''bad'')
   \<and> SemVer web_100 = Inr v100"
  by (simp add: FindLatestPackagePredicate_scan scanned_store_of FindLatest_predicate_def
      SemVer_web_bad SemVer_web_100)

subsection \<open>FindPackageUpdate\<close>

lemma FindLatestPackage_store:
  "FindLatestPackage (service (store_of packs)) web_100 =
     (case fold (\<lambda>e m. snd (FindLatest_predicate
                   (\<lambda>e. Repository (Locator e) = Repository web_100
                        \<and> Name (Locator e) = Name web_100) m e)) packs None of
        None \<Rightarrow> (None, Some (NotFound ''latest package with filter %v not found'' [L web_100]))
      | Some m \<Rightarrow> (Some m, None))"
  by (simp add: FindLatestPackage_def FindLatestPackagePredicate_scan scanned_store_of
      split: option.splits)

lemma FindLatestPackage_bad:
  "FindLatestPackage (service (store_of [env_bad])) web_100 = (Some web_bad, None)"
  by (simp add: FindLatestPackage_store FindLatest_predicate_def)

lemma FindLatestPackage_two:
  "FindLatestPackage (service (store_of [env_100, env_120])) web_100 = (Some web_120, None)"
  using SemVer_web_100 SemVer_web_120 v100_less_v120
  by (simp add: FindLatestPackage_store FindLatest_predicate_def LessThan_iff_Compare)

lemma FindLatestPackage_one:
  "FindLatestPackage (service (store_of [env_100])) web_100 = (Some web_100, None)"
  by (simp add: FindLatestPackage_store FindLatest_predicate_def)

text \<open>
  What \<^verbatim>\<open>FindPackageUpdate\<close> does once \<^verbatim>\<open>FindLatestPackage\<close> has resolved to a locator
  \<open>latest\<close>, for a package with a valid version: when the version of \<open>latest\<close> parses, the
  result is the update from the package to \<open>latest\<close> if that version is strictly greater
  than the package's, and a not-found error otherwise (so also when the two are equal);
  when the version of \<open>latest\<close> does not parse, the result is that parse error.
\<close>

lemma FindPackageUpdate_result:
  assumes "SemVer pkg = Inr currentVersion"
    and "FindLatestPackage packages pkg = (Some latest, None)"
  shows "(\<forall>latestVersion. SemVer latest = Inr latestVersion \<longrightarrow>
            (if LessThan currentVersion latestVersion
             then FindPackageUpdate packages pkg = (Some \<lparr>From = pkg, To = latest\<rparr>, None)
             else fst (FindPackageUpdate packages pkg) = None
                  \<and> (\<exists>err. snd (FindPackageUpdate packages pkg) = Some err \<and> IsNotFound err)))
       \<and> (\<forall>err. SemVer latest = Inl err \<longrightarrow>
            FindPackageUpdate packages pkg = (None, Some err))"
  using assms by (auto simp: FindPackageUpdate_def LessThan_iff_Compare)

lemma FindPackageUpdate_examples:
  "FindPackageUpdate (service (store_of [env_100, env_120])) web_100
     = (Some \<lparr>From = web_100, To = web_120\<rparr>, None)
   \<and> fst (FindPackageUpdate (service (store_of [env_100])) web_100) = None
   \<and> (\<exists>err. snd (FindPackageUpdate (service (store_of [env_100])) web_100) = Some err
          \<and> IsNotFound err)
   \<and> FindPackageUpdate (service (store_of [env_bad])) web_100
       = (None, Some (MalformedVersion ''bad''))"
proof -
  have nlt: "\<not> LessThan v100 v100" using LessThan_asym[of v100 v100] by blast
  show ?thesis
    using FindPackageUpdate_result[OF SemVer_web_100 FindLatestPackage_two]
      FindPackageUpdate_result[OF SemVer_web_100 FindLatestPackage_one]
      FindPackageUpdate_result[OF SemVer_web_100 FindLatestPackage_bad]
      SemVer_web_100 SemVer_web_120 SemVer_web_bad v100_less_v120 nlt
    by simp
qed

text \<open>
  C5. The claim fails where the latest locator has a version that does not parse, which
  happens through the defect of C3 (the first envelope of the line that the scan meets
  becomes the maximum unparsed): in a store with \<^verbatim>\<open>app/web:bad\<close> only, for the package
  \<^verbatim>\<open>app/web:1.0.0\<close>, \<^verbatim>\<open>FindLatestPackage\<close> resolves and \<^verbatim>\<open>FindPackageUpdate\<close> returns the
  parse error, which is neither the not-found error nor an update.
\<close>

theorem FindPackageUpdate_malformed_latest:
  "SemVer web_100 = Inr v100
   \<and> FindLatestPackage (service (store_of [env_bad])) web_100 = (Some web_bad, None)
   \<and> FindPackageUpdate (service (store_of [env_bad])) web_100
       = (None, Some (MalformedVersion ''bad''))
   \<and> \<not> IsNotFound (MalformedVersion ''bad'')"
  by (simp add: FindPackageUpdate_def FindLatestPackage_bad SemVer_web_100 SemVer_web_bad)

subsection \<open>FindNewerPackages\<close>







section \<open>Configuration packages\<close>

lemma insert_labels_lookup:
  "insert_labels labels m k = (case map_of (rev labels) k of Some v \<Rightarrow> Some v | None \<Rightarrow> m k)"
proof (induction labels arbitrary: m)
  case Nil
  then show ?case by simp
next
  case (Cons kv labels)
  obtain k' v' where kv: "kv = (k', v')" by (cases kv)
  show ?case
    unfolding kv by (simp add: Cons.IH map_add_def split: option.splits)
qed

lemma map_of_rev_distinct: "distinct (map fst labels) \<Longrightarrow> map_of (rev labels) = map_of labels"
  by (rule ext) (metis distinct_rev map_of_eq_Some_iff map_of_eq_None_iff not_Some_eq rev_map set_rev)

lemma ConfigurePackage_labels_lookup:
  assumes "distinct (map fst labels)"
  shows "ConfigurePackage_labels loc labels k =
     (case map_of labels k of
        Some v \<Rightarrow> Some v
      | None \<Rightarrow> if k = ConfigLabel then Some (String (ZeroVersion loc)) else None)"
  by (simp add: ConfigurePackage_labels_def insert_labels_lookup map_of_rev_distinct[OF assms]
      split: option.splits)

lemma visited_service:
  "set rs \<subseteq> fst ` set (Repos st) \<Longrightarrow>
   visited (service st) rs = (concat (map (\<lambda>r. the (map_of (Repos st) r)) rs), None)"
proof (induction rs)
  case Nil
  then show ?case by simp
next
  case (Cons r rs)
  then obtain ps where "map_of (Repos st) r = Some ps"
    by (metis (no_types, lifting) list.set_intros(1) map_of_eq_None_iff not_Some_eq subsetD)
  then show ?case using Cons by (simp add: service_def)
qed

lemma enumeration_service:
  "enumeration (service st) =
     (concat (map (\<lambda>r. the (map_of (Repos st) r)) (map fst (Repos st))), None)"
  using visited_service[of "map fst (Repos st)" st]
  by (simp add: enumeration_def) (simp add: service_def)

lemma mem_enumeration_service:
  "x \<in> set (fst (enumeration (service st))) \<longleftrightarrow>
     (\<exists>r ps. map_of (Repos st) r = Some ps \<and> x \<in> set ps)"
proof
  assume "x \<in> set (fst (enumeration (service st)))"
  then obtain r where r: "r \<in> fst ` set (Repos st)" and x: "x \<in> set (the (map_of (Repos st) r))"
    by (auto simp: enumeration_service)
  from r obtain ps where "map_of (Repos st) r = Some ps"
    by (metis map_of_eq_None_iff not_Some_eq)
  with x show "\<exists>r ps. map_of (Repos st) r = Some ps \<and> x \<in> set ps" by auto
next
  assume "\<exists>r ps. map_of (Repos st) r = Some ps \<and> x \<in> set ps"
  then obtain r ps where m: "map_of (Repos st) r = Some ps" and x: "x \<in> set ps" by blast
  from m have "r \<in> fst ` set (Repos st)" by (metis map_of_eq_None_iff option.distinct(1))
  with m x show "x \<in> set (fst (enumeration (service st)))"
    by (force simp: enumeration_service)
qed

lemma map_of_add_to_repo:
  "map_of (add_to_repo repo e rs) =
     (map_of rs)(repo \<mapsto> (case map_of rs repo of None \<Rightarrow> [e] | Some ps \<Rightarrow> ps @ [e]))"
  by (induction rs) (auto simp: fun_eq_iff)

lemma mem_new_packs:
  "x \<in> set (case m repo of None \<Rightarrow> [e] | Some ps \<Rightarrow> ps @ [e]) \<longleftrightarrow>
     x = e \<or> (\<exists>ps. m repo = Some ps \<and> x \<in> set ps)"
  by (cases "m repo") auto

lemma mem_enumeration_add:
  "x \<in> set (fst (enumeration (service \<lparr>Repos = add_to_repo repo e (Repos st), Blobs = b\<rparr>))) \<longleftrightarrow>
     x = e \<or> x \<in> set (fst (enumeration (service st)))"
proof -
  let ?R = "map_of (Repos st)"
  let ?new = "case ?R repo of None \<Rightarrow> [e] | Some ps \<Rightarrow> ps @ [e]"
  let ?R' = "map_of (add_to_repo repo e (Repos st))"
  have at_repo: "?R' repo = Some ?new" by (simp add: map_of_add_to_repo)
  have elsewhere: "\<And>r. r \<noteq> repo \<Longrightarrow> ?R' r = ?R r" by (simp add: map_of_add_to_repo)
  have "(\<exists>r ps. ?R' r = Some ps \<and> x \<in> set ps) \<longleftrightarrow>
        x = e \<or> (\<exists>r ps. ?R r = Some ps \<and> x \<in> set ps)"
  proof
    assume "\<exists>r ps. ?R' r = Some ps \<and> x \<in> set ps"
    then obtain r ps where 1: "?R' r = Some ps" and 2: "x \<in> set ps" by blast
    show "x = e \<or> (\<exists>r ps. ?R r = Some ps \<and> x \<in> set ps)"
    proof (cases "r = repo")
      case True
      then have "x \<in> set ?new" using 1 2 at_repo by simp
      then show ?thesis unfolding mem_new_packs by blast
    next
      case False
      then show ?thesis using 1 2 elsewhere[of r] by auto
    qed
  next
    assume "x = e \<or> (\<exists>r ps. ?R r = Some ps \<and> x \<in> set ps)"
    then show "\<exists>r ps. ?R' r = Some ps \<and> x \<in> set ps"
    proof
      assume "x = e"
      then have "x \<in> set ?new" unfolding mem_new_packs by simp
      then show ?thesis using at_repo by blast
    next
      assume "\<exists>r ps. ?R r = Some ps \<and> x \<in> set ps"
      then obtain r ps where 1: "?R r = Some ps" and 2: "x \<in> set ps" by blast
      show ?thesis
      proof (cases "r = repo")
        case True
        then have "x \<in> set ?new" unfolding mem_new_packs using 1 2 by blast
        then show ?thesis using at_repo by blast
      next
        case False
        then show ?thesis using 1 2 elsewhere[of r] by auto
      qed
    qed
  qed
  then show ?thesis
    unfolding mem_enumeration_service by simp
qed

lemma snd_enumeration_service: "snd (enumeration (service st)) = None"
  by (simp add: enumeration_service)

lemma CreatePackage_Inr:
  assumes "CreatePackage st l data labels = Inr (e, st')"
  shows "e = \<lparr>Locator = l, RuntimeLabels = labels\<rparr>"
    and "st' = \<lparr>Repos = add_to_repo (Repository l) e (Repos st), Blobs = (Blobs st)(l \<mapsto> data)\<rparr>"
    and "\<forall>x\<in>set (fst (enumeration (service st))). Locator x \<noteq> l"
proof -
  from assms have fresh: "\<not> list_ex (\<lambda>(r, packs). list_ex (\<lambda>e. Locator e = l) packs) (Repos st)"
    by (auto simp: CreatePackage_def split: if_splits)
  from assms fresh show "e = \<lparr>Locator = l, RuntimeLabels = labels\<rparr>"
    by (auto simp: CreatePackage_def Let_def)
  from assms fresh
  show "st' = \<lparr>Repos = add_to_repo (Repository l) e (Repos st), Blobs = (Blobs st)(l \<mapsto> data)\<rparr>"
    by (auto simp: CreatePackage_def Let_def)
  show "\<forall>x\<in>set (fst (enumeration (service st))). Locator x \<noteq> l"
  proof
    fix x assume "x \<in> set (fst (enumeration (service st)))"
    then obtain r ps where "map_of (Repos st) r = Some ps" and x: "x \<in> set ps"
      unfolding mem_enumeration_service by blast
    then have "(r, ps) \<in> set (Repos st)" by (simp add: map_of_SomeD)
    then show "Locator x \<noteq> l" using fresh x by (auto simp: list_ex_iff)
  qed
qed

lemma ConfigurePackage_success:
  assumes "ConfigurePackage a st loc confLoc args labels = (None, st')"
  shows "\<exists>reader. CreatePackage st confLoc reader (ConfigurePackage_labels loc labels) =
           Inr (\<lparr>Locator = confLoc, RuntimeLabels = ConfigurePackage_labels loc labels\<rparr>, st')"
proof -
  from assms obtain reader env where
    c: "CreatePackage st confLoc reader (ConfigurePackage_labels loc labels) = Inr (env, st')"
    by (auto simp: ConfigurePackage_def split: sum.splits)
  from CreatePackage_Inr(1)[OF c] c show ?thesis by blast
qed

lemma ConfigurePackage_enumeration:
  assumes "ConfigurePackage a st loc confLoc args labels = (None, st')"
  shows "x \<in> set (fst (enumeration (service st'))) \<longleftrightarrow>
           x = \<lparr>Locator = confLoc, RuntimeLabels = ConfigurePackage_labels loc labels\<rparr>
           \<or> x \<in> set (fst (enumeration (service st)))"
    and "\<forall>x\<in>set (fst (enumeration (service st))). Locator x \<noteq> confLoc"
proof -
  let ?e = "\<lparr>Locator = confLoc, RuntimeLabels = ConfigurePackage_labels loc labels\<rparr>"
  from ConfigurePackage_success[OF assms] obtain reader where
    c: "CreatePackage st confLoc reader (ConfigurePackage_labels loc labels) = Inr (?e, st')"
    by blast
  show "x \<in> set (fst (enumeration (service st'))) \<longleftrightarrow>
           x = ?e \<or> x \<in> set (fst (enumeration (service st)))"
    unfolding CreatePackage_Inr(2)[OF c] by (rule mem_enumeration_add)
  show "\<forall>x\<in>set (fst (enumeration (service st))). Locator x \<noteq> confLoc"
    by (rule CreatePackage_Inr(3)[OF c])
qed

lemma FindConfigPackage_scan:
  "FindConfigPackage (service st) fltr =
     (if filter (HasLabel_config fltr) (fst (enumeration (service st))) = []
      then (None, Some (NotFound ''no configuration package for %v found'' [L fltr]))
      else (Some (Locator (last (filter (HasLabel_config fltr) (fst (enumeration (service st)))))),
            None))"
  by (simp add: FindConfigPackage_def FindPackage_scan snd_enumeration_service)

lemma example_ConfigurePackage:
  "ConfigurePackage example_archive example_store web_120 conf_120 [] labels =
     (None,
      \<lparr>Repos = [(''app'', [env_120,
                  \<lparr>Locator = conf_120, RuntimeLabels = ConfigurePackage_labels web_120 labels\<rparr>])],
       Blobs = [web_120 \<mapsto> ''tarball'', conf_120 \<mapsto> ''PORT=80'']\<rparr>)"
  by (simp add: ConfigurePackage_def GetConfigPackage_def CreatePackage_def Let_def
      example_archive_def example_store_def service_def env_120_def web_120_def conf_120_def)

lemma example_store_unlabelled:
  "\<forall>e\<in>set (fst (enumeration (service example_store))).
     \<not> HasLabel e ConfigLabel (String (ZeroVersion web_120))"
  by (simp add: enumeration_service example_store_def env_120_def HasLabel_def)

lemma zero_versions_differ: "String (ZeroVersion conf_120) \<noteq> String (ZeroVersion web_120)"
  by (simp add: String_def ZeroVersion_def conf_120_def web_120_def)

text \<open>
  C10. The labels of the package that \<^verbatim>\<open>ConfigurePackage\<close> creates are the canonical entry,
  \<^verbatim>\<open>config\<close> mapped to the zero-version string of \<open>loc\<close>, with every label of the caller
  inserted over it: a key of the caller has the caller's value, any other key is looked
  up in the canonical entry. So a caller's value for \<^verbatim>\<open>config\<close> replaces the canonical one.
\<close>

theorem ConfigurePackage_created_labels:
  assumes "distinct (map fst labels)"
    and "ConfigurePackage a st loc confLoc args labels = (None, st')"
  shows "\<exists>e\<in>set (fst (enumeration (service st'))).
           Locator e = confLoc
           \<and> RuntimeLabels e = insert_labels labels [ConfigLabel \<mapsto> String (ZeroVersion loc)]
           \<and> (\<forall>k. RuntimeLabels e k =
                 (case map_of labels k of
                    Some v \<Rightarrow> Some v
                  | None \<Rightarrow> [ConfigLabel \<mapsto> String (ZeroVersion loc)] k))
           \<and> (\<forall>v. (ConfigLabel, v) \<in> set labels \<longrightarrow> RuntimeLabels e ConfigLabel = Some v)"
proof -
  let ?e = "\<lparr>Locator = confLoc, RuntimeLabels = ConfigurePackage_labels loc labels\<rparr>"
  have "?e \<in> set (fst (enumeration (service st')))"
    using ConfigurePackage_enumeration(1)[OF assms(2)] by blast
  moreover have "\<forall>k. RuntimeLabels ?e k =
      (case map_of labels k of
         Some v \<Rightarrow> Some v
       | None \<Rightarrow> [ConfigLabel \<mapsto> String (ZeroVersion loc)] k)"
    by (simp add: ConfigurePackage_labels_lookup[OF assms(1)] split: option.splits)
  moreover have "\<forall>v. (ConfigLabel, v) \<in> set labels \<longrightarrow> RuntimeLabels ?e ConfigLabel = Some v"
    using assms(1) by (simp add: ConfigurePackage_labels_lookup[OF assms(1)])
  moreover have "RuntimeLabels ?e = insert_labels labels [ConfigLabel \<mapsto> String (ZeroVersion loc)]"
    by (simp add: ConfigurePackage_labels_def)
  ultimately show ?thesis by (intro bexI[of _ ?e]) auto
qed

theorem ConfigurePackage_created_labels_witness:
  "Locator (last (fst (enumeration (service
        (snd (ConfigurePackage example_archive example_store web_120 conf_120 []
                [(''config'', ''other''), (''purpose'', ''runtime'')])))))) = conf_120
   \<and> RuntimeLabels (last (fst (enumeration (service
        (snd (ConfigurePackage example_archive example_store web_120 conf_120 []
                [(''config'', ''other''), (''purpose'', ''runtime'')])))))) ConfigLabel
     = Some ''other''
   \<and> RuntimeLabels (last (fst (enumeration (service
        (snd (ConfigurePackage example_archive example_store web_120 conf_120 []
                [(''config'', ''other''), (''purpose'', ''runtime'')])))))) ''purpose''
     = Some ''runtime''"
proof -
  let ?labels = "[(''config'', ''other''), (''purpose'', ''runtime'')]"
  let ?st' = "snd (ConfigurePackage example_archive example_store web_120 conf_120 [] ?labels)"
  let ?es' = "fst (enumeration (service ?st'))"
  have run: "ConfigurePackage example_archive example_store web_120 conf_120 [] ?labels
      = (None, ?st')"
    by (simp add: example_ConfigurePackage)
  have dist: "distinct (map fst ?labels)" by simp
  have mem: "(ConfigLabel, ''other'') \<in> set ?labels" by (simp add: ConfigLabel_def)
  obtain e where e: "e \<in> set ?es'" "Locator e = conf_120"
    and look: "\<forall>k. RuntimeLabels e k =
                 (case map_of ?labels k of
                    Some v \<Rightarrow> Some v
                  | None \<Rightarrow> [ConfigLabel \<mapsto> String (ZeroVersion web_120)] k)"
    and over: "\<forall>v. (ConfigLabel, v) \<in> set ?labels \<longrightarrow> RuntimeLabels e ConfigLabel = Some v"
    using ConfigurePackage_created_labels[OF dist run] by blast
  have es': "?es' = [env_120,
      \<lparr>Locator = conf_120, RuntimeLabels = ConfigurePackage_labels web_120 ?labels\<rparr>]"
    unfolding example_ConfigurePackage by (simp add: enumeration_service)
  have "Locator env_120 \<noteq> conf_120" by (simp add: web_120_def conf_120_def)
  then have "e = last ?es'" using e unfolding es' by auto
  moreover have "RuntimeLabels e ConfigLabel = Some ''other''" using over mem by blast
  moreover have "RuntimeLabels e ''purpose'' = Some ''runtime''" using look by simp
  ultimately show ?thesis using e(2) by simp
qed

text \<open>
  C8, as stated, fails for a caller whose labels have the key \<^verbatim>\<open>config\<close> (see C10):
  \<^verbatim>\<open>ConfigurePackage\<close> succeeds, no other package has the label, and \<^verbatim>\<open>FindConfigPackage\<close>
  for the same locator finds nothing.
\<close>

theorem ConfigurePackage_FindConfigPackage_counterexample:
  "fst (ConfigurePackage example_archive example_store web_120 conf_120 []
          [(''config'', ''other'')]) = None
   \<and> filter (HasLabel_config web_120) (fst (enumeration (service example_store))) = []
   \<and> FindConfigPackage
         (service (snd (ConfigurePackage example_archive example_store web_120 conf_120 []
                          [(''config'', ''other'')]))) web_120
       = (None, Some (NotFound ''no configuration package for %v found'' [L web_120]))"
  unfolding example_ConfigurePackage
  by (simp add: FindConfigPackage_scan enumeration_service
      example_store_def HasLabel_config_def HasLabel_def ConfigurePackage_labels_def
      ConfigLabel_def env_120_def String_def ZeroVersion_def web_120_def)

text \<open>
  C8, amended. When the caller's labels do not give \<^verbatim>\<open>config\<close> a value other than the
  zero-version string of \<open>loc\<close>, and no package of the store had that label value before,
  then after a successful \<^verbatim>\<open>ConfigurePackage\<close> the lookup \<^verbatim>\<open>FindConfigPackage\<close> for \<open>loc\<close>
  returns the locator of the created package, and the lookup for a locator with another
  zero-version string does not return it.
\<close>

theorem ConfigurePackage_FindConfigPackage:
  assumes run: "ConfigurePackage a st loc confLoc args labels = (None, st')"
    and none: "\<forall>e\<in>set (fst (enumeration (service st))).
                 \<not> HasLabel e ConfigLabel (String (ZeroVersion loc))"
    and dist: "distinct (map fst labels)"
    and same: "\<forall>v. (ConfigLabel, v) \<in> set labels \<longrightarrow> v = String (ZeroVersion loc)"
  shows "FindConfigPackage (service st') loc = (Some confLoc, None)
       \<and> (\<forall>loc2. String (ZeroVersion loc2) \<noteq> String (ZeroVersion loc) \<longrightarrow>
             fst (FindConfigPackage (service st') loc2) \<noteq> Some confLoc)"
proof -
  let ?e = "\<lparr>Locator = confLoc, RuntimeLabels = ConfigurePackage_labels loc labels\<rparr>"
  let ?es' = "fst (enumeration (service st'))"
  note mem = ConfigurePackage_enumeration(1)[OF run]
  note fresh = ConfigurePackage_enumeration(2)[OF run]
  have label: "RuntimeLabels ?e ConfigLabel = Some (String (ZeroVersion loc))"
  proof (cases "map_of labels ConfigLabel")
    case None
    then show ?thesis by (simp add: ConfigurePackage_labels_lookup[OF dist])
  next
    case (Some v)
    then have "(ConfigLabel, v) \<in> set labels" by (rule map_of_SomeD)
    then have "v = String (ZeroVersion loc)" using same by blast
    then show ?thesis using Some by (simp add: ConfigurePackage_labels_lookup[OF dist])
  qed
  have first: "FindConfigPackage (service st') loc = (Some confLoc, None)"
  proof -
    let ?m = "filter (HasLabel_config loc) ?es'"
    have e_in: "?e \<in> set ?m"
      using mem[of ?e] label by (simp add: HasLabel_config_def HasLabel_def)
    then have ne: "?m \<noteq> []" by (metis empty_iff empty_set)
    have "\<forall>x\<in>set ?m. x = ?e"
      using mem none by (auto simp: HasLabel_config_def)
    moreover have "last ?m \<in> set ?m" using ne by (rule last_in_set)
    ultimately have "last ?m = ?e" by blast
    then show ?thesis using ne by (simp add: FindConfigPackage_scan)
  qed
  have second: "\<forall>loc2. String (ZeroVersion loc2) \<noteq> String (ZeroVersion loc) \<longrightarrow>
             fst (FindConfigPackage (service st') loc2) \<noteq> Some confLoc"
  proof (intro allI impI)
    fix loc2 assume diff: "String (ZeroVersion loc2) \<noteq> String (ZeroVersion loc)"
    let ?m = "filter (HasLabel_config loc2) ?es'"
    show "fst (FindConfigPackage (service st') loc2) \<noteq> Some confLoc"
    proof (cases "?m = []")
      case True
      then show ?thesis by (simp add: FindConfigPackage_scan)
    next
      case False
      then have l: "last ?m \<in> set ?m" by (rule last_in_set)
      then have "HasLabel_config loc2 (last ?m)" by simp
      then have "last ?m \<noteq> ?e"
        using label diff by (auto simp: HasLabel_config_def HasLabel_def)
      moreover have "last ?m \<in> set ?es'" using l by simp
      ultimately have "last ?m \<in> set (fst (enumeration (service st)))"
        using mem[of "last ?m"] by blast
      then have "Locator (last ?m) \<noteq> confLoc" using fresh by blast
      then show ?thesis using False by (simp add: FindConfigPackage_scan)
    qed
  qed
  from first second show ?thesis by blast
qed

theorem ConfigurePackage_FindConfigPackage_witness:
  "FindConfigPackage
       (service (snd (ConfigurePackage example_archive example_store web_120 conf_120 []
                        [(''purpose'', ''runtime'')]))) web_120
     = (Some conf_120, None)
   \<and> fst (FindConfigPackage
       (service (snd (ConfigurePackage example_archive example_store web_120 conf_120 []
                        [(''purpose'', ''runtime'')]))) conf_120)
     \<noteq> Some conf_120"
proof -
  let ?st' = "snd (ConfigurePackage example_archive example_store web_120 conf_120 []
                     [(''purpose'', ''runtime'')])"
  have run: "ConfigurePackage example_archive example_store web_120 conf_120 []
               [(''purpose'', ''runtime'')] = (None, ?st')"
    by (simp add: example_ConfigurePackage)
  have dist: "distinct (map fst [(''purpose'', ''runtime'')])" by simp
  have same: "\<forall>v. (ConfigLabel, v) \<in> set [(''purpose'', ''runtime'')]
      \<longrightarrow> v = String (ZeroVersion web_120)"
    by (simp add: ConfigLabel_def)
  show ?thesis
    using ConfigurePackage_FindConfigPackage[OF run example_store_unlabelled dist same]
      zero_versions_differ
    by blast
qed

section \<open>Unpacking\<close>

lemma IsUnpacked_dir:
  "Stat os fs targetDir = Inr info \<Longrightarrow> IsDir info \<Longrightarrow> IsUnpacked os fs targetDir = (True, None)"
  by (simp add: IsUnpacked_def)

lemma IsUnpacked_True:
  "IsUnpacked os fs targetDir = (True, err) \<Longrightarrow>
   err = None \<and> (\<exists>info. Stat os fs targetDir = Inr info \<and> IsDir info)"
  by (auto simp: IsUnpacked_def split: sum.splits if_splits)

lemma UnpackIfNotUnpacked_failed:
  "IsUnpacked os fs targetDir = (isUnpacked, Some err) \<Longrightarrow>
   UnpackIfNotUnpacked os p loc targetDir opts fs = (Some err, fs, [])"
  by (simp add: UnpackIfNotUnpacked_def split: bool.splits)

lemma UnpackIfNotUnpacked_unpacked:
  "IsUnpacked os fs targetDir = (True, None) \<Longrightarrow>
   UnpackIfNotUnpacked os p loc targetDir opts fs = (None, fs, [])"
  by (simp add: UnpackIfNotUnpacked_def)

lemma UnpackIfNotUnpacked_unpack:
  "IsUnpacked os fs targetDir = (False, None) \<Longrightarrow>
   UnpackIfNotUnpacked os p loc targetDir opts fs = Unpack os p loc targetDir opts fs"
  by (simp add: UnpackIfNotUnpacked_def)

lemma UnpackIfNotUnpacked_noop:
  assumes "\<exists>info. Stat os fs targetDir = Inr info \<and> IsDir info"
  shows "UnpackIfNotUnpacked os p loc targetDir opts fs = (None, fs, [])"
  using assms by (auto simp: UnpackIfNotUnpacked_unpacked IsUnpacked_dir)

lemma Unpack_cases:
  assumes "targetDir \<noteq> []"
  obtains
    (mkdir_failed) err fs1 where "MkdirAll os fs targetDir = (Some err, fs1)"
      "Unpack os p loc targetDir opts fs = (Some err, fs1, [DidMkdirAll targetDir])"
  | (read_failed) err fs1 where "MkdirAll os fs targetDir = (None, fs1)"
      "Unpack os p loc targetDir opts fs =
         (Some err, fs1, [DidMkdirAll targetDir, DidReadPackage loc])"
  | (untarred) fs1 reader o' where "MkdirAll os fs targetDir = (None, fs1)"
      "Unpack os p loc targetDir opts fs =
         (fst (Untar os fs1 reader targetDir o'), snd (Untar os fs1 reader targetDir o'),
          [DidMkdirAll targetDir, DidReadPackage loc, DidUntar targetDir])"
proof -
  obtain e1 fs1 where mk: "MkdirAll os fs targetDir = (e1, fs1)"
    by (cases "MkdirAll os fs targetDir") auto
  show thesis
  proof (cases e1)
    case (Some err)
    then show ?thesis using mk assms mkdir_failed[of err fs1] by (simp add: Unpack_def)
  next
    case None
    show ?thesis
    proof (cases "ReadPackage p loc")
      case (Inl err)
      then show ?thesis using mk None assms read_failed[of fs1 err] by (simp add: Unpack_def)
    next
      case (Inr reader)
      then show ?thesis
        using mk None assms
          untarred[of fs1 reader "case opts of None \<Rightarrow> DefaultOptions os | Some given \<Rightarrow> given"]
        by (simp add: Unpack_def split: prod.splits)
    qed
  qed
qed

lemma Unpack_at_most_one:
  "length (filter is_untar (snd (snd (Unpack os p loc targetDir opts fs)))) \<le> 1"
  by (simp add: Unpack_def split: sum.splits prod.splits option.splits)

lemma UnpackIfNotUnpacked_at_most_one:
  "length (filter is_untar (snd (snd (UnpackIfNotUnpacked os p loc targetDir opts fs)))) \<le> 1"
  using Unpack_at_most_one[of os p loc targetDir opts fs]
  by (simp add: UnpackIfNotUnpacked_def split: prod.splits option.splits bool.splits)


lemma UnpackIfNotUnpacked_twice_untars:
  assumes mk: "\<forall>fs dir fs'. MkdirAll os fs dir = (None, fs') \<longrightarrow>
                 (\<exists>info. Stat os fs' dir = Inr info \<and> IsDir info)"
    and ut: "\<forall>fs reader dir opts.
                 (\<exists>info. Stat os fs dir = Inr info \<and> IsDir info) \<longrightarrow>
                 (\<exists>info. Stat os (snd (Untar os fs reader dir opts)) dir = Inr info \<and> IsDir info)"
    and ne: "targetDir \<noteq> []"
  shows "length (filter is_untar
           (snd (snd (UnpackIfNotUnpacked_twice os p loc targetDir opts fs)))) \<le> 1"
proof -
  let ?call = "UnpackIfNotUnpacked os p loc targetDir opts"
  obtain isUnpacked err where iu: "IsUnpacked os fs targetDir = (isUnpacked, err)"
    by (cases "IsUnpacked os fs targetDir") auto
  have same_fs: "?call fs = (e, fs, []) \<Longrightarrow> ?thesis" for e
    by (simp add: UnpackIfNotUnpacked_twice_def)
  have then_noop: "?call fs = (e, fs1, effs) \<Longrightarrow> length (filter is_untar effs) \<le> 1 \<Longrightarrow>
      \<exists>info. Stat os fs1 targetDir = Inr info \<and> IsDir info \<Longrightarrow> ?thesis" for e fs1 effs
    using UnpackIfNotUnpacked_noop[of os fs1 targetDir p loc opts]
    by (simp add: UnpackIfNotUnpacked_twice_def)
  have no_untar: "?call fs = (e, fs1, effs) \<Longrightarrow> filter is_untar effs = [] \<Longrightarrow> ?thesis"
    for e fs1 effs
    using UnpackIfNotUnpacked_at_most_one[of os p loc targetDir opts fs1]
    by (auto simp: UnpackIfNotUnpacked_twice_def split: prod.splits)
  show ?thesis
  proof (cases "err \<noteq> None \<or> isUnpacked")
    case True
    then have "\<exists>e. ?call fs = (e, fs, [])"
      using iu UnpackIfNotUnpacked_failed[of os fs targetDir isUnpacked _ p loc opts]
        UnpackIfNotUnpacked_unpacked[of os fs targetDir p loc opts]
      by (cases err) auto
    then show ?thesis using same_fs by blast
  next
    case False
    then have call: "?call fs = Unpack os p loc targetDir opts fs"
      using iu by (simp add: UnpackIfNotUnpacked_unpack)
    from ne show ?thesis
    proof (cases rule: Unpack_cases[where os = os and fs = fs and p = p and loc = loc
          and opts = opts])
      case (mkdir_failed err fs1)
      then show ?thesis using call no_untar by simp
    next
      case (read_failed err fs1)
      then show ?thesis using call no_untar by simp
    next
      case (untarred fs1 reader o')
      have "\<exists>info. Stat os fs1 targetDir = Inr info \<and> IsDir info"
        using mk untarred(1) by blast
      then have "\<exists>info. Stat os (snd (Untar os fs1 reader targetDir o')) targetDir = Inr info
          \<and> IsDir info"
        using ut by blast
      then show ?thesis using call untarred(2) then_noop by simp
    qed
  qed
qed

lemma UnpackIfNotUnpacked_second_noop:
  assumes mk: "\<forall>fs dir fs'. MkdirAll os fs dir = (None, fs') \<longrightarrow>
                 (\<exists>info. Stat os fs' dir = Inr info \<and> IsDir info)"
    and ut: "\<forall>fs reader dir opts.
                 (\<exists>info. Stat os fs dir = Inr info \<and> IsDir info) \<longrightarrow>
                 (\<exists>info. Stat os (snd (Untar os fs reader dir opts)) dir = Inr info \<and> IsDir info)"
    and ne: "targetDir \<noteq> []"
    and first: "UnpackIfNotUnpacked os p loc targetDir opts fs = (None, fs1, effs1)"
  shows "UnpackIfNotUnpacked os p loc targetDir opts fs1 = (None, fs1, [])"
proof -
  obtain isUnpacked err where iu: "IsUnpacked os fs targetDir = (isUnpacked, err)"
    by (cases "IsUnpacked os fs targetDir") auto
  have "\<exists>info. Stat os fs1 targetDir = Inr info \<and> IsDir info"
  proof (cases isUnpacked)
    case True
    then have "fs1 = fs" using iu first IsUnpacked_True[of os fs targetDir err]
      by (auto simp: UnpackIfNotUnpacked_unpacked)
    then show ?thesis using True iu IsUnpacked_True[of os fs targetDir err] by simp
  next
    case False
    then have call: "Unpack os p loc targetDir opts fs = (None, fs1, effs1)"
      using iu first UnpackIfNotUnpacked_failed[of os fs targetDir False _ p loc opts]
      by (cases err) (auto simp: UnpackIfNotUnpacked_unpack)
    from ne show ?thesis
    proof (cases rule: Unpack_cases[where os = os and fs = fs and p = p and loc = loc
          and opts = opts])
      case (mkdir_failed err' fs')
      then show ?thesis using call by simp
    next
      case (read_failed err' fs')
      then show ?thesis using call by simp
    next
      case (untarred fs' reader o')
      have "\<exists>info. Stat os fs' targetDir = Inr info \<and> IsDir info"
        using mk untarred(1) by blast
      then have "\<exists>info. Stat os (snd (Untar os fs' reader targetDir o')) targetDir = Inr info
          \<and> IsDir info"
        using ut by blast
      then show ?thesis using call untarred(2) by simp
    qed
  qed
  then show ?thesis by (rule UnpackIfNotUnpacked_noop)
qed

lemma dir_os_MkdirAll:
  "\<forall>fs dir fs'. MkdirAll dir_os fs dir = (None, fs') \<longrightarrow>
     (\<exists>info. Stat dir_os fs' dir = Inr info \<and> IsDir info)"
  by (auto simp: dir_os_def split: if_splits)

lemma dir_os_Untar:
  "\<forall>fs reader dir opts.
     (\<exists>info. Stat dir_os fs dir = Inr info \<and> IsDir info) \<longrightarrow>
     (\<exists>info. Stat dir_os (snd (Untar dir_os fs reader dir opts)) dir = Inr info \<and> IsDir info)"
  by (simp add: dir_os_def)

lemma example_first_unpack:
  "UnpackIfNotUnpacked dir_os (service example_store) web_120 ''/opt/web'' None [] =
     (None, [''/opt/web''],
      [DidMkdirAll ''/opt/web'', DidReadPackage web_120, DidUntar ''/opt/web''])"
  by (simp add: UnpackIfNotUnpacked_def IsUnpacked_def Unpack_def dir_os_def service_def
      example_store_def)

lemma IsUnpacked_missing:
  "Stat os fs targetDir = Inl err \<Longrightarrow> IsNotExist err \<Longrightarrow>
   IsUnpacked os fs targetDir = (False, None)"
  by (simp add: IsUnpacked_def)

lemma UnpackIfNotUnpacked_twice_existing:
  assumes "Stat os fs targetDir = Inr info" and "IsDir info"
  shows "UnpackIfNotUnpacked_twice os p loc targetDir opts fs = ((None, None), fs, [])"
proof -
  have "UnpackIfNotUnpacked os p loc targetDir opts fs = (None, fs, [])"
    using assms by (intro UnpackIfNotUnpacked_noop) blast
  then show ?thesis by (simp add: UnpackIfNotUnpacked_twice_def)
qed

lemma UnpackIfNotUnpacked_twice_missing:
  assumes mk: "\<forall>fs dir fs'. MkdirAll os fs dir = (None, fs') \<longrightarrow>
                 (\<exists>info. Stat os fs' dir = Inr info \<and> IsDir info)"
    and ut: "\<forall>fs reader dir opts.
                 (\<exists>info. Stat os fs dir = Inr info \<and> IsDir info) \<longrightarrow>
                 (\<exists>info. Stat os (snd (Untar os fs reader dir opts)) dir = Inr info \<and> IsDir info)"
    and ne: "targetDir \<noteq> []"
    and missing: "Stat os fs targetDir = Inl err" "IsNotExist err"
    and first: "UnpackIfNotUnpacked os p loc targetDir opts fs = (None, fs1, effs1)"
  shows "UnpackIfNotUnpacked_twice os p loc targetDir opts fs =
           ((None, None), fs1,
            [DidMkdirAll targetDir, DidReadPackage loc, DidUntar targetDir])"
proof -
  have call: "Unpack os p loc targetDir opts fs = (None, fs1, effs1)"
    using first IsUnpacked_missing[OF missing] by (simp add: UnpackIfNotUnpacked_unpack)
  from ne have effs: "effs1 = [DidMkdirAll targetDir, DidReadPackage loc, DidUntar targetDir]"
  proof (cases rule: Unpack_cases[where os = os and fs = fs and p = p and loc = loc
        and opts = opts])
    case (mkdir_failed err' fs')
    then show ?thesis using call by simp
  next
    case (read_failed err' fs')
    then show ?thesis using call by simp
  next
    case (untarred fs' reader o')
    then show ?thesis using call by simp
  qed
  have "UnpackIfNotUnpacked os p loc targetDir opts fs1 = (None, fs1, [])"
    by (rule UnpackIfNotUnpacked_second_noop[OF mk ut ne first])
  then show ?thesis using first effs by (simp add: UnpackIfNotUnpacked_twice_def)
qed

lemma example_Stat_missing:
  "Stat dir_os [] ''/opt/web'' = Inl (ErrNotExist ''/opt/web'')"
  by (simp add: dir_os_def)

lemma example_Stat_existing:
  "Stat dir_os [''/opt/web''] ''/opt/web'' = Inr \<lparr>IsDir = True\<rparr>"
  by (simp add: dir_os_def)

text \<open>
  C9, as stated, fails in three ways. When the target directory exists before the first
  call, neither call extracts: the extraction happens zero times, by the check that the
  function is for. When the first call fails before it extracts (here the package is not
  in the store), the directory exists afterwards and the second call does not extract
  either. When the target directory is the empty path, \<^verbatim>\<open>IsUnpacked\<close> looks at the empty
  path, which does not exist, while \<^verbatim>\<open>Unpack\<close> extracts to the default directory: both
  calls extract.
\<close>

theorem UnpackIfNotUnpacked_once_counterexample:
  "UnpackIfNotUnpacked_twice dir_os (service example_store) web_120 ''/opt/web'' None
       [''/opt/web'']
     = ((None, None), [''/opt/web''], [])
   \<and> UnpackIfNotUnpacked_twice dir_os (service example_store) web_100 ''/opt/web'' None []
     = ((Some (NotFound ''package %v not found'' [L web_100]), None), [''/opt/web''],
        [DidMkdirAll ''/opt/web'', DidReadPackage web_100])
   \<and> UnpackIfNotUnpacked_twice dir_os (service example_store) web_120 [] None []
     = ((None, None), [default_dir, default_dir],
        [DidMkdirAll default_dir, DidReadPackage web_120, DidUntar default_dir,
         DidMkdirAll default_dir, DidReadPackage web_120, DidUntar default_dir])"
  by (simp add: UnpackIfNotUnpacked_twice_def UnpackIfNotUnpacked_def IsUnpacked_def Unpack_def
      PackagePath_def dir_os_def service_def example_store_def default_dir_def web_120_def
      web_100_def)

text \<open>
  C9, amended. Take an operating system where a successful \<^verbatim>\<open>MkdirAll\<close> leaves its path a
  directory and \<^verbatim>\<open>Untar\<close> leaves its target, if a directory, a directory, and a target
  directory that is not the empty path. When the target directory does not exist before
  the first call and the first call succeeds, two calls in succession extract exactly
  once: the first call creates the directory, reads the package and unpacks it, and the
  second call does nothing and succeeds. When the target directory exists before the first
  call, both calls succeed and neither extracts. In every case, after a successful first
  call the second call returns success, makes no call with an effect and leaves the file
  system as it is, and two calls never extract more than once.
\<close>

theorem UnpackIfNotUnpacked_idempotent:
  assumes "\<forall>fs dir fs'. MkdirAll os fs dir = (None, fs') \<longrightarrow>
                 (\<exists>info. Stat os fs' dir = Inr info \<and> IsDir info)"
    and "\<forall>fs reader dir opts.
                 (\<exists>info. Stat os fs dir = Inr info \<and> IsDir info) \<longrightarrow>
                 (\<exists>info. Stat os (snd (Untar os fs reader dir opts)) dir = Inr info \<and> IsDir info)"
    and "targetDir \<noteq> []"
  shows "(\<forall>err fs1 effs1.
            Stat os fs targetDir = Inl err \<and> IsNotExist err
            \<and> UnpackIfNotUnpacked os p loc targetDir opts fs = (None, fs1, effs1) \<longrightarrow>
            UnpackIfNotUnpacked_twice os p loc targetDir opts fs =
              ((None, None), fs1,
               [DidMkdirAll targetDir, DidReadPackage loc, DidUntar targetDir])
            \<and> filter is_untar
                 (snd (snd (UnpackIfNotUnpacked_twice os p loc targetDir opts fs)))
               = [DidUntar targetDir])
       \<and> (\<forall>info. Stat os fs targetDir = Inr info \<and> IsDir info \<longrightarrow>
            UnpackIfNotUnpacked_twice os p loc targetDir opts fs = ((None, None), fs, []))
       \<and> (\<forall>fs1 effs1. UnpackIfNotUnpacked os p loc targetDir opts fs = (None, fs1, effs1) \<longrightarrow>
             UnpackIfNotUnpacked os p loc targetDir opts fs1 = (None, fs1, []))
       \<and> length (filter is_untar
           (snd (snd (UnpackIfNotUnpacked_twice os p loc targetDir opts fs)))) \<le> 1"
proof -
  have a: "\<forall>err fs1 effs1.
            Stat os fs targetDir = Inl err \<and> IsNotExist err
            \<and> UnpackIfNotUnpacked os p loc targetDir opts fs = (None, fs1, effs1) \<longrightarrow>
            UnpackIfNotUnpacked_twice os p loc targetDir opts fs =
              ((None, None), fs1,
               [DidMkdirAll targetDir, DidReadPackage loc, DidUntar targetDir])
            \<and> filter is_untar
                 (snd (snd (UnpackIfNotUnpacked_twice os p loc targetDir opts fs)))
               = [DidUntar targetDir]"
  proof (intro allI impI)
    fix err fs1 effs1
    assume h: "Stat os fs targetDir = Inl err \<and> IsNotExist err
            \<and> UnpackIfNotUnpacked os p loc targetDir opts fs = (None, fs1, effs1)"
    then have "UnpackIfNotUnpacked_twice os p loc targetDir opts fs =
              ((None, None), fs1,
               [DidMkdirAll targetDir, DidReadPackage loc, DidUntar targetDir])"
      using UnpackIfNotUnpacked_twice_missing[OF assms, of fs err p loc opts fs1 effs1] by blast
    then show "UnpackIfNotUnpacked_twice os p loc targetDir opts fs =
              ((None, None), fs1,
               [DidMkdirAll targetDir, DidReadPackage loc, DidUntar targetDir])
            \<and> filter is_untar
                 (snd (snd (UnpackIfNotUnpacked_twice os p loc targetDir opts fs)))
               = [DidUntar targetDir]"
      by simp
  qed
  have b: "\<forall>info. Stat os fs targetDir = Inr info \<and> IsDir info \<longrightarrow>
            UnpackIfNotUnpacked_twice os p loc targetDir opts fs = ((None, None), fs, [])"
    using UnpackIfNotUnpacked_twice_existing[of os fs targetDir _ p loc opts] by blast
  show ?thesis
    using a b UnpackIfNotUnpacked_twice_untars[OF assms, of p loc opts fs]
      UnpackIfNotUnpacked_second_noop[OF assms, of p loc opts fs]
    by blast
qed

theorem UnpackIfNotUnpacked_idempotent_witness:
  "UnpackIfNotUnpacked_twice dir_os (service example_store) web_120 ''/opt/web'' None []
     = ((None, None), [''/opt/web''],
        [DidMkdirAll ''/opt/web'', DidReadPackage web_120, DidUntar ''/opt/web''])
   \<and> filter is_untar
         (snd (snd (UnpackIfNotUnpacked_twice dir_os (service example_store) web_120
                      ''/opt/web'' None [])))
       = [DidUntar ''/opt/web'']
   \<and> UnpackIfNotUnpacked_twice dir_os (service example_store) web_120 ''/opt/web'' None
         [''/opt/web'']
       = ((None, None), [''/opt/web''], [])
   \<and> UnpackIfNotUnpacked dir_os (service example_store) web_120 ''/opt/web'' None [''/opt/web'']
       = (None, [''/opt/web''], [])"
proof -
  have ne: "''/opt/web'' \<noteq> []" by simp
  have nx: "IsNotExist (ErrNotExist ''/opt/web'')" by simp
  have dir: "IsDir \<lparr>IsDir = True\<rparr>" by simp
  note missing = UnpackIfNotUnpacked_idempotent[OF dir_os_MkdirAll dir_os_Untar ne,
      of "[]" "service example_store" web_120 None]
  note existing = UnpackIfNotUnpacked_idempotent[OF dir_os_MkdirAll dir_os_Untar ne,
      of "[''/opt/web'']" "service example_store" web_120 None]
  have 1: "UnpackIfNotUnpacked_twice dir_os (service example_store) web_120 ''/opt/web'' None []
     = ((None, None), [''/opt/web''],
        [DidMkdirAll ''/opt/web'', DidReadPackage web_120, DidUntar ''/opt/web''])
   \<and> filter is_untar
         (snd (snd (UnpackIfNotUnpacked_twice dir_os (service example_store) web_120
                      ''/opt/web'' None [])))
       = [DidUntar ''/opt/web'']"
    using missing example_Stat_missing nx example_first_unpack by blast
  have 2: "UnpackIfNotUnpacked_twice dir_os (service example_store) web_120 ''/opt/web'' None
         [''/opt/web'']
       = ((None, None), [''/opt/web''], [])"
    using existing example_Stat_existing dir by blast
  have 3: "UnpackIfNotUnpacked dir_os (service example_store) web_120 ''/opt/web'' None
         [''/opt/web'']
       = (None, [''/opt/web''], [])"
    using missing example_first_unpack by blast
  from 1 2 3 show ?thesis by blast
qed

section \<open>Dispatch of phase executors\<close>

lemmas executor_names =
  updateInit_def updateChecks_def updateBootstrap_def updateSystem_def preUpdate_def
  coredns_def updateApp_def electionStatus_def taintNode_def untaintNode_def drainNode_def
  uncordonNode_def endpoints_def config_def kubeletPermissions_def migrateLinks_def
  updateLabels_def migrateRoles_def updateEtcdBackup_def updateEtcdShutdown_def
  updateEtcdMaster_def updateEtcdRestore_def updateEtcdRestart_def
  updateEtcdRestartGravity_def cleanupNode_def

lemma empty_not_in_vocabulary: "[] \<notin> set vocabulary"
  by (simp add: vocabulary_def executor_names)

lemma fsmSpec_empty:
  "Executor (Phase p) = [] \<Longrightarrow>
   fsmSpec new upd c p remote =
     Inl (BadParameter ''error in plan, executor for phase %q was not specified''
            [S (ID (Phase p))])"
  by (simp add: fsmSpec_def)

lemma fsmSpec_unsupported:
  "Executor (Phase p) \<noteq> [] \<Longrightarrow> OperationType (Plan p) \<noteq> upd \<Longrightarrow>
   fsmSpec new upd c p remote =
     Inl (BadParameter ''unsupported operation %q'' [S (OperationType (Plan p))])"
  by (simp add: fsmSpec_def)

lemma fsmSpec_unknown:
  "Executor (Phase p) \<noteq> [] \<Longrightarrow> OperationType (Plan p) = upd \<Longrightarrow>
   Executor (Phase p) \<notin> set vocabulary \<Longrightarrow>
   fsmSpec new upd c p remote =
     Inl (BadParameter
            ''phase %q requires executor %q (potential mismatch between upgrade versions)''
            [S (ID (Phase p)), S (Executor (Phase p))])"
  by (simp add: fsmSpec_def vocabulary_def)

lemma fsmSpec_known:
  assumes mem: "Executor (Phase p) \<in> set vocabulary" and op: "OperationType (Plan p) = upd"
  shows "\<exists>call. executor_name call = Executor (Phase p) \<and> fsmSpec new upd c p remote = new call"
proof -
  have ne: "Executor (Phase p) \<noteq> []"
    using mem empty_not_in_vocabulary by auto
  let ?call = "
       if Executor (Phase p) = updateInit then NewUpdatePhaseInit c (Plan p) (Phase p) else
       if Executor (Phase p) = updateChecks then NewUpdatePhaseChecks c (Plan p) (Phase p) (Remote c) else
       if Executor (Phase p) = updateBootstrap then NewUpdatePhaseBootstrap c (Plan p) (Phase p) remote else
       if Executor (Phase p) = coredns then NewPhaseCoreDNS c (Plan p) (Phase p) else
       if Executor (Phase p) = updateSystem then NewUpdatePhaseSystem c (Plan p) (Phase p) remote else
       if Executor (Phase p) = preUpdate then NewUpdatePhaseBeforeApp c (Plan p) (Phase p) else
       if Executor (Phase p) = updateApp then NewUpdatePhaseApp c (Plan p) (Phase p) else
       if Executor (Phase p) = electionStatus then NewPhaseElectionChange (Plan p) (Phase p) remote (Operator c) else
       if Executor (Phase p) = taintNode then NewPhaseTaint c (Plan p) (Phase p) else
       if Executor (Phase p) = untaintNode then NewPhaseUntaint c (Plan p) (Phase p) else
       if Executor (Phase p) = drainNode then NewPhaseDrain c (Plan p) (Phase p) else
       if Executor (Phase p) = uncordonNode then NewPhaseUncordon c (Plan p) (Phase p) else
       if Executor (Phase p) = endpoints then NewPhaseEndpoints c (Plan p) (Phase p) else
       if Executor (Phase p) = config then NewUpdatePhaseConfig c p remote else
       if Executor (Phase p) = kubeletPermissions then NewPhaseKubeletPermissions c (Plan p) (Phase p) else
       if Executor (Phase p) = migrateLinks then NewPhaseMigrateLinks c (Plan p) (Phase p) else
       if Executor (Phase p) = updateLabels then NewPhaseUpdateLabels c (Plan p) (Phase p) else
       if Executor (Phase p) = migrateRoles then NewPhaseMigrateRoles c (Plan p) (Phase p) else
       if Executor (Phase p) = updateEtcdBackup then NewPhaseUpgradeEtcdBackup c (Plan p) (Phase p) else
       if Executor (Phase p) = updateEtcdShutdown then NewPhaseUpgradeEtcdShutdown c (Plan p) (Phase p) else
       if Executor (Phase p) = updateEtcdMaster then NewPhaseUpgradeEtcd c (Plan p) (Phase p) else
       if Executor (Phase p) = updateEtcdRestore then NewPhaseUpgradeEtcdRestore c (Plan p) (Phase p) else
       if Executor (Phase p) = updateEtcdRestart then NewPhaseUpgradeEtcdRestart c (Plan p) (Phase p) else
       if Executor (Phase p) = updateEtcdRestartGravity then NewPhaseUpgradeGravitySiteRestart c (Plan p) (Phase p) else
       NewGarbageCollectPhase (Plan p) (Phase p) remote"
  have name: "executor_name ?call = Executor (Phase p)"
    using mem unfolding vocabulary_def by (simp split: if_split) auto
  have run: "fsmSpec new upd c p remote = new ?call"
    using mem ne op unfolding vocabulary_def fsmSpec_def by (simp split: if_split) auto
  from name run show ?thesis by blast
qed

text \<open>
  C4. The dispatcher checks, in this order: an empty executor name is a \<^verbatim>\<open>BadParameter\<close>
  error about the plan; then an operation type other than the update operation is a
  \<^verbatim>\<open>BadParameter\<close> error "unsupported operation"; then a name outside the vocabulary is
  a \<^verbatim>\<open>BadParameter\<close> error naming the phase and the executor. None of the three runs a
  constructor. A name of the vocabulary under the update operation runs the constructor
  of that name and returns its result as it is.
\<close>

theorem fsmSpec_dispatch:
  "(Executor (Phase p) = [] \<longrightarrow>
      fsmSpec new upd c p remote =
        Inl (BadParameter ''error in plan, executor for phase %q was not specified''
               [S (ID (Phase p))]))
   \<and> (Executor (Phase p) \<noteq> [] \<and> OperationType (Plan p) \<noteq> upd \<longrightarrow>
      fsmSpec new upd c p remote =
        Inl (BadParameter ''unsupported operation %q'' [S (OperationType (Plan p))]))
   \<and> (Executor (Phase p) \<noteq> [] \<and> OperationType (Plan p) = upd
        \<and> Executor (Phase p) \<notin> set vocabulary \<longrightarrow>
      fsmSpec new upd c p remote =
        Inl (BadParameter
               ''phase %q requires executor %q (potential mismatch between upgrade versions)''
               [S (ID (Phase p)), S (Executor (Phase p))]))
   \<and> (Executor (Phase p) \<in> set vocabulary \<and> OperationType (Plan p) = upd \<longrightarrow>
      (\<exists>call. executor_name call = Executor (Phase p)
         \<and> fsmSpec new upd c p remote = new call))"
  using fsmSpec_empty[of p new upd c remote] fsmSpec_unsupported[of p upd new c remote]
    fsmSpec_unknown[of p upd new c remote] fsmSpec_known[of p upd new c remote]
  by blast

theorem fsmSpec_dispatch_witness:
  "fsmSpec example_new ''operation_update'' example_config
       (example_params ''operation_update'' []) () =
     Inl (BadParameter ''error in plan, executor for phase %q was not specified'' [S ''/init''])
   \<and> fsmSpec example_new ''operation_update'' example_config
       (example_params ''operation_install'' ''update_init'') () =
     Inl (BadParameter ''unsupported operation %q'' [S ''operation_install''])
   \<and> fsmSpec example_new ''operation_update'' example_config
       (example_params ''operation_update'' ''reboot'') () =
     Inl (BadParameter
            ''phase %q requires executor %q (potential mismatch between upgrade versions)''
            [S ''/init'', S ''reboot''])
   \<and> fsmSpec example_new ''operation_update'' example_config
       (example_params ''operation_update'' ''update_app'') () = Inr ''update_app''"
proof -
  have a: "Executor (Phase (example_params ''operation_update'' [])) = []"
    by (simp add: example_params_def)
  have b: "Executor (Phase (example_params ''operation_install'' ''update_init'')) \<noteq> []
      \<and> OperationType (Plan (example_params ''operation_install'' ''update_init''))
          \<noteq> ''operation_update''"
    by (simp add: example_params_def)
  have c: "Executor (Phase (example_params ''operation_update'' ''reboot'')) \<noteq> []
      \<and> OperationType (Plan (example_params ''operation_update'' ''reboot''))
          = ''operation_update''
      \<and> Executor (Phase (example_params ''operation_update'' ''reboot'')) \<notin> set vocabulary"
    by (simp add: example_params_def vocabulary_def executor_names)
  have d: "Executor (Phase (example_params ''operation_update'' ''update_app'')) \<in> set vocabulary
      \<and> OperationType (Plan (example_params ''operation_update'' ''update_app''))
          = ''operation_update''"
    by (simp add: example_params_def vocabulary_def executor_names)
  have e: "Executor (Phase (example_params ''operation_update'' ''update_app'')) = ''update_app''"
    by (simp add: example_params_def)
  have ID: "\<And>operation executor. ID (Phase (example_params operation executor)) = ''/init''"
    by (simp add: example_params_def)
  have 1: "fsmSpec example_new ''operation_update'' example_config
       (example_params ''operation_update'' []) () =
     Inl (BadParameter ''error in plan, executor for phase %q was not specified'' [S ''/init''])"
    using fsmSpec_dispatch[of "example_params ''operation_update'' []" example_new
        "''operation_update''" example_config "()"] a ID
    by simp
  have 2: "fsmSpec example_new ''operation_update'' example_config
       (example_params ''operation_install'' ''update_init'') () =
     Inl (BadParameter ''unsupported operation %q'' [S ''operation_install''])"
    using fsmSpec_dispatch[of "example_params ''operation_install'' ''update_init''" example_new
        "''operation_update''" example_config "()"] b
    by (simp add: example_params_def)
  have 3: "fsmSpec example_new ''operation_update'' example_config
       (example_params ''operation_update'' ''reboot'') () =
     Inl (BadParameter
            ''phase %q requires executor %q (potential mismatch between upgrade versions)''
            [S ''/init'', S ''reboot''])"
    using fsmSpec_dispatch[of "example_params ''operation_update'' ''reboot''" example_new
        "''operation_update''" example_config "()"] c
    by (simp add: example_params_def)
  have "\<exists>call. executor_name call = ''update_app''
      \<and> fsmSpec example_new ''operation_update'' example_config
            (example_params ''operation_update'' ''update_app'') () = example_new call"
    using fsmSpec_dispatch[of "example_params ''operation_update'' ''update_app''" example_new
        "''operation_update''" example_config "()"] d e
    by simp
  then have 4: "fsmSpec example_new ''operation_update'' example_config
       (example_params ''operation_update'' ''update_app'') () = Inr ''update_app''"
    by (auto simp: example_new_def)
  from 1 2 3 4 show ?thesis by simp
qed

end
